theory Spec2Isabelle
  imports Main
begin

section \<open>JavaScript primitives used by the wallet code\<close>

text \<open>
  Integers stand for JavaScript BigInt values and for Number values that hold integers
  (tree indices, positions); the model is exact, so it agrees with the Number arithmetic
  of the source as long as the values stay below \<open>2 ^ 53\<close>.
\<close>

text \<open>The remainder operator \<^verbatim>\<open>%\<close>: the result takes the sign of the dividend.\<close>

definition js_rem :: "int \<Rightarrow> int \<Rightarrow> int" where
  "js_rem a b = sgn a * (\<bar>a\<bar> mod \<bar>b\<bar>)"

definition hex_digit :: "nat \<Rightarrow> char" where
  "hex_digit d = ''0123456789abcdef'' ! d"

text \<open>\<^verbatim>\<open>toString(16)\<close> of a non-negative integer: no leading zeros, \<^verbatim>\<open>"0"\<close> for zero.\<close>

fun hex_of_nat :: "nat \<Rightarrow> string" where
  "hex_of_nat n =
     (if n < 16 then [hex_digit n] else hex_of_nat (n div 16) @ [hex_digit (n mod 16)])"

declare hex_of_nat.simps [simp del]

text \<open>\<^verbatim>\<open>BigInt.prototype.toString(16)\<close>: a negative value prints a minus sign first.\<close>

definition toString16 :: "int \<Rightarrow> string" where
  "toString16 k = (if k < 0 then CHR ''-'' # hex_of_nat (nat (- k)) else hex_of_nat (nat k))"

text \<open>\<^verbatim>\<open>String.prototype.padStart(n, c)\<close> with a one-character filler.\<close>

definition padStart :: "nat \<Rightarrow> char \<Rightarrow> string \<Rightarrow> string" where
  "padStart n c s = replicate (n - length s) c @ s"

text \<open>
  A JavaScript array is a list of slots; \<open>None\<close> is a hole (read as \<^verbatim>\<open>undefined\<close>).
  Assigning past the end extends the array with holes.
\<close>

definition js_set :: "'a option list \<Rightarrow> nat \<Rightarrow> 'a \<Rightarrow> 'a option list" where
  "js_set xs i v =
     (if i < length xs then xs[i := Some v]
      else xs @ replicate (i - length xs) None @ [Some v])"

text \<open>Reading a slot of an array without holes: past the end the result is \<^verbatim>\<open>undefined\<close>.\<close>

definition js_get :: "'a list \<Rightarrow> nat \<Rightarrow> 'a option" where
  "js_get xs i = (if i < length xs then Some (xs ! i) else None)"

section \<open>Errors and observable effects\<close>

datatype error =
    KeyNotWhitelisted
  | UnknownTransactionType
  | InputTooLarge
  | WhitelistRootsDiffer
  | NoCommonRoot
  | SyntaxError
  | UnknownContractType
  | InvalidPoint
  | InvalidEncoding
  | NonResidue
  | External string

text \<open>
  Calls that leave the process are recorded in a trace, in the order in which the code
  issues them.
\<close>

datatype event =
    CallL string
  | CallM int
  | GetContractInstance string string
  | RandomHex nat
  | GetSiblingPath string int
  | ComputeWitness
  | GenerateProof
  | ReadProofFile
  | SendTransferRC
  | GetPastEvents

section \<open>public-key-tree: \<^verbatim>\<open>getPublicKeyTreeData\<close>\<close>

text \<open>\<^verbatim>\<open>const FIRST_LEAF_INDEX = 2 ** PUBLIC_KEY_TREE_HEIGHT - 1\<close>\<close>

definition FIRST_LEAF_INDEX :: "nat \<Rightarrow> int" where
  "FIRST_LEAF_INDEX h = 2 ^ h - 1"

text \<open>
  \<^verbatim>\<open>`0x${(BigInt(_key) % ZOKRATES_PRIME).toString(16).padStart(64, '0')}`\<close>;
  the argument is the value of \<^verbatim>\<open>BigInt(_key)\<close>.
\<close>

definition canonical_key :: "int \<Rightarrow> int \<Rightarrow> string" where
  "canonical_key zp k = ''0x'' @ padStart 64 CHR ''0'' (toString16 (js_rem k zp))"

text \<open>
  The body of the loop computes the sibling index \<open>s\<close> and the next index \<open>t\<close> from the
  current index \<open>p\<close>.
\<close>

definition sibling_step :: "int \<Rightarrow> int \<times> int" where
  "sibling_step p =
     (if js_rem p 2 = 0 then (p - 1, (p - 1) div 2) else (p + 1, p div 2))"

record 'v walk_state =
  ws_path :: "'v option list"
  ws_trace :: "event list"

text \<open>
  \<^verbatim>\<open>for (let r = PUBLIC_KEY_TREE_HEIGHT; r > 0; r--)\<close>: the counter \<open>r\<close> runs down,
  slot \<open>r\<close> of the array receives the read of \<open>M(s)\<close>, and the index moves to \<open>t\<close>.
\<close>

fun walk :: "(int \<Rightarrow> 'v) \<Rightarrow> nat \<Rightarrow> int \<Rightarrow> 'v walk_state \<Rightarrow> 'v walk_state" where
  "walk M 0 p st = st"
| "walk M (Suc r) p st =
     (let (s, t) = sibling_step p in
      walk M r t \<lparr>ws_path = js_set (ws_path st) (Suc r) (M s),
                  ws_trace = ws_trace st @ [CallM s]\<rparr>)"

record 'v tree_data =
  leafIndex :: int
  siblingPath :: "'v option list"

text \<open>
  The contract accessors are parameters: \<open>L\<close> maps the key string to a node index
  (an unsigned integer), \<open>M\<close> maps a node index to the stored value. The result pairs
  the trace of accessor calls with the returned object or the thrown error.
\<close>

definition getPublicKeyTreeData ::
  "nat \<Rightarrow> int \<Rightarrow> (string \<Rightarrow> nat) \<Rightarrow> (int \<Rightarrow> 'v) \<Rightarrow> int \<Rightarrow> event list \<times> (error + 'v tree_data)"
where
  "getPublicKeyTreeData H zp L M k =
     (let key = canonical_key zp k;
          commitmentIndex = int (L key);
          p = commitmentIndex;
          leafIdx = commitmentIndex - FIRST_LEAF_INDEX H
      in if leafIdx < 0 then ([CallL key], Inl KeyNotWhitelisted)
         else
           let st = walk M H p \<lparr>ws_path = [], ws_trace = [CallL key]\<rparr>;
               sp = js_set (ws_path st) 0 (M 0)
           in (ws_trace st @ [CallM 0], Inr \<lparr>leafIndex = leafIdx, siblingPath = sp\<rparr>))"

section \<open>String to number conversions\<close>

text \<open>
  The digit value of a character in radix up to 36, as \<^verbatim>\<open>parseInt\<close> and \<^verbatim>\<open>BigInt\<close> read it.
\<close>

definition digit_val :: "char \<Rightarrow> nat option" where
  "digit_val c =
     (let n = (of_char c :: nat) in
      if 48 \<le> n \<and> n \<le> 57 then Some (n - 48)
      else if 97 \<le> n \<and> n \<le> 122 then Some (n - 87)
      else if 65 \<le> n \<and> n \<le> 90 then Some (n - 55)
      else None)"

definition is_digit :: "nat \<Rightarrow> char \<Rightarrow> bool" where
  "is_digit r c = (case digit_val c of None \<Rightarrow> False | Some d \<Rightarrow> d < r)"

definition digits_value :: "nat \<Rightarrow> string \<Rightarrow> nat" where
  "digits_value r ds =
     foldl (\<lambda>acc c. acc * r + (case digit_val c of None \<Rightarrow> 0 | Some d \<Rightarrow> d)) 0 ds"

text \<open>White space of the ASCII range: tab, line feed, vertical tab, form feed, return, space.\<close>

definition is_ws :: "char \<Rightarrow> bool" where
  "is_ws c = ((of_char c :: nat) \<in> {9, 10, 11, 12, 13, 32})"

text \<open>A string made of digits of the radix only, and at least one: its value.\<close>

definition parse_digits :: "nat \<Rightarrow> string \<Rightarrow> nat option" where
  "parse_digits r ds =
     (if ds \<noteq> [] \<and> list_all (is_digit r) ds then Some (digits_value r ds) else None)"

text \<open>
  \<^verbatim>\<open>BigInt(string)\<close>: white space is trimmed, the empty string is zero, a prefix
  \<^verbatim>\<open>0x\<close>, \<^verbatim>\<open>0o\<close> or \<^verbatim>\<open>0b\<close> selects the radix (no sign allowed then), otherwise the string
  is a decimal literal with an optional sign. \<open>None\<close> stands for the SyntaxError.
\<close>

definition js_BigInt :: "string \<Rightarrow> int option" where
  "js_BigInt str =
     (let t = rev (dropWhile is_ws (rev (dropWhile is_ws str))) in
      if t = [] then Some 0
      else if take 2 t = ''0x'' \<or> take 2 t = ''0X'' then map_option int (parse_digits 16 (drop 2 t))
      else if take 2 t = ''0o'' \<or> take 2 t = ''0O'' then map_option int (parse_digits 8 (drop 2 t))
      else if take 2 t = ''0b'' \<or> take 2 t = ''0B'' then map_option int (parse_digits 2 (drop 2 t))
      else if hd t = CHR ''-'' then map_option (\<lambda>n. - int n) (parse_digits 10 (tl t))
      else if hd t = CHR ''+'' then map_option int (parse_digits 10 (tl t))
      else map_option int (parse_digits 10 t))"

text \<open>
  \<^verbatim>\<open>parseInt(string, 16)\<close>: leading white space and a sign are skipped, then a prefix
  \<^verbatim>\<open>0x\<close>, and the longest run of hexadecimal digits is read. \<open>None\<close> stands for NaN.
\<close>

definition js_parseInt16 :: "string \<Rightarrow> int option" where
  "js_parseInt16 str =
     (let s0 = dropWhile is_ws str;
          neg = (s0 \<noteq> [] \<and> hd s0 = CHR ''-'');
          s1 = (if s0 \<noteq> [] \<and> (hd s0 = CHR ''-'' \<or> hd s0 = CHR ''+'') then tl s0 else s0);
          s2 = (if take 2 s1 = ''0x'' \<or> take 2 s1 = ''0X'' then drop 2 s1 else s1);
          z = takeWhile (is_digit 16) s2
      in if z = [] then None
         else Some ((if neg then - 1 else 1) * int (digits_value 16 z)))"

section \<open>utils: \<^verbatim>\<open>concatenateThenHash\<close>\<close>

text \<open>
  The hash primitives \<^verbatim>\<open>mimcHash\<close> and \<^verbatim>\<open>shaHash\<close> and the helper \<^verbatim>\<open>ensure0x\<close> belong to
  the external package \<^verbatim>\<open>zkp-utils\<close>; they are parameters. The two places where the hash
  type is configured are \<^verbatim>\<open>config.HASH_TYPE\<close> and \<^verbatim>\<open>process.env.HASH_TYPE\<close>, each a string
  or undefined.
\<close>

record 'i hash_env =
  config_HASH_TYPE :: "string option"
  env_HASH_TYPE :: "string option"
  ensure0x :: "'i \<Rightarrow> string"
  mimcHash :: "int list \<Rightarrow> string \<Rightarrow> int"
  shaHash :: "'i list \<Rightarrow> string"

text \<open>\<^verbatim>\<open>items.map(e => BigInt(ensure0x(e)))\<close>: the first item that does not parse throws.\<close>

fun to_BigInts :: "('i \<Rightarrow> string) \<Rightarrow> 'i list \<Rightarrow> error + int list" where
  "to_BigInts f [] = Inr []"
| "to_BigInts f (e # es) =
     (case js_BigInt (f e) of
        None \<Rightarrow> Inl SyntaxError
      | Some b \<Rightarrow> (case to_BigInts f es of Inl err \<Rightarrow> Inl err | Inr bs \<Rightarrow> Inr (b # bs)))"

definition concatenateThenHash :: "'i hash_env \<Rightarrow> 'i list \<Rightarrow> error + string" where
  "concatenateThenHash env items =
     (if config_HASH_TYPE env = Some ''mimc'' \<or> env_HASH_TYPE env = Some ''mimc'' then
        (case to_BigInts (ensure0x env) items of
           Inl err \<Rightarrow> Inl err
         | Inr bs \<Rightarrow>
             Inr (''0x'' @ padStart 64 CHR ''0'' (toString16 (mimcHash env bs ''ALT_BN_254''))))
      else Inr (shaHash env items))"

section \<open>erc20rc: \<^verbatim>\<open>decryptEventLog\<close>\<close>

text \<open>
  \<^verbatim>\<open>config.ALLOWED_DECRYPTION_TYPES\<close> maps a transaction type to the positions of its
  ciphertext block in the public inputs. The table is a parameter (the configuration
  module is not part of the sources at hand): a map that holds the entries the
  configuration writes down.
\<close>

record decryption_type =
  PUBLIC_INPUTS_START_POSITION :: nat
  PUBLIC_INPUTS_END_POSITION :: nat

text \<open>
  The table is a plain object, and \<^verbatim>\<open>table[type]\<close> is a property read: it finds the entries
  of the table itself first and then the properties that every plain object inherits from
  its prototype. The inherited properties are functions (and the prototype object itself
  for \<^verbatim>\<open>__proto__\<close>): values that count as true and have no position fields.
\<close>

datatype 'a js_property = Undefined | Own 'a | Inherited

definition object_prototype_names :: "string list" where
  "object_prototype_names =
     [''constructor'', ''toString'', ''toLocaleString'', ''valueOf'', ''hasOwnProperty'',
      ''isPrototypeOf'', ''propertyIsEnumerable'', ''__proto__'', ''__defineGetter__'',
      ''__defineSetter__'', ''__lookupGetter__'', ''__lookupSetter__'']"

definition js_object_get :: "(string \<rightharpoonup> 'a) \<Rightarrow> string \<Rightarrow> 'a js_property" where
  "js_object_get obj name =
     (case obj name of
        Some v \<Rightarrow> Own v
      | None \<Rightarrow> if name \<in> set object_prototype_names then Inherited else Undefined)"

text \<open>
  A position field of the value that the lookup found; the field of an inherited property
  is \<^verbatim>\<open>undefined\<close> (\<open>None\<close>).
\<close>

fun position_of :: "(decryption_type \<Rightarrow> nat) \<Rightarrow> decryption_type js_property \<Rightarrow> nat option" where
  "position_of field (Own t) = Some (field t)"
| "position_of field Inherited = None"
| "position_of field Undefined = None"

text \<open>
  The functions \<^verbatim>\<open>edwardsDecompress\<close>, \<^verbatim>\<open>dec\<close> and \<^verbatim>\<open>bruteForce\<close> of the elgamal module are
  parameters; each may throw. A slot read past the end of an array is \<^verbatim>\<open>undefined\<close>
  (\<open>None\<close>) and is handed to the callee as it is; \<^verbatim>\<open>m[i]\<close> is read below \<^verbatim>\<open>m.length\<close> only.
\<close>

record ('f, 'pt, 'g, 'm) elgamal_env =
  edwardsDecompress :: "'f option \<Rightarrow> error + 'pt"
  dec :: "'pt list \<Rightarrow> error + 'pt list"
  bruteForce :: "'pt \<Rightarrow> 'g option \<Rightarrow> error + 'm"

text \<open>
  \<^verbatim>\<open>for (let i = START; i < END; i++) c.push(edwardsDecompress(publicInputs[i]))\<close>
\<close>

function decompress_loop ::
  "('f option \<Rightarrow> error + 'pt) \<Rightarrow> 'f list \<Rightarrow> nat \<Rightarrow> nat \<Rightarrow> 'pt list \<Rightarrow> error + 'pt list"
where
  "decompress_loop dcmp publicInputs i e c =
     (if i < e then
        (case dcmp (js_get publicInputs i) of
           Inl err \<Rightarrow> Inl err
         | Inr pt \<Rightarrow> decompress_loop dcmp publicInputs (Suc i) e (c @ [pt]))
      else Inr c)"
  by pat_completeness auto
termination
  by (relation "measure (\<lambda>(dcmp, publicInputs, i, e, c). e - i)") auto

declare decompress_loop.simps [simp del]

text \<open>
  \<^verbatim>\<open>for (let i = 0; i < m.length; i++) decrypt.push(bruteForce(m[i], guessers[i]))\<close>
\<close>

function bruteForce_loop ::
  "('pt \<Rightarrow> 'g option \<Rightarrow> error + 'm) \<Rightarrow> 'pt list \<Rightarrow> 'g list \<Rightarrow> nat \<Rightarrow> 'm list
     \<Rightarrow> error + 'm list"
where
  "bruteForce_loop bf m guessers i decrypt =
     (if i < length m then
        (case bf (m ! i) (js_get guessers i) of
           Inl err \<Rightarrow> Inl err
         | Inr x \<Rightarrow> bruteForce_loop bf m guessers (Suc i) (decrypt @ [x]))
      else Inr decrypt)"
  by pat_completeness auto
termination
  by (relation "measure (\<lambda>(bf, m, guessers, i, decrypt). length m - i)") auto

declare bruteForce_loop.simps [simp del]

text \<open>
  The first loop with the positions as the lookup gives them: the comparison
  \<^verbatim>\<open>i < END\<close> is false when either side is \<^verbatim>\<open>undefined\<close>, so the body does not run then
  and \<^verbatim>\<open>c\<close> stays empty.
\<close>

definition decompress_from ::
  "('f option \<Rightarrow> error + 'pt) \<Rightarrow> 'f list \<Rightarrow> nat option \<Rightarrow> nat option \<Rightarrow> error + 'pt list"
where
  "decompress_from dcmp publicInputs start end =
     (case start of
        None \<Rightarrow> Inr []
      | Some s \<Rightarrow>
          (case end of
             None \<Rightarrow> Inr []
           | Some e \<Rightarrow> decompress_loop dcmp publicInputs s e []))"

text \<open>
  The guard \<^verbatim>\<open>if (!config.ALLOWED_DECRYPTION_TYPES[type])\<close> throws when the property read
  gives \<^verbatim>\<open>undefined\<close>; an entry of the table and an inherited property both pass it.
\<close>

definition decryptEventLog ::
  "(string \<rightharpoonup> decryption_type) \<Rightarrow> ('f, 'pt, 'g, 'm) elgamal_env \<Rightarrow> 'f list \<Rightarrow> string
     \<Rightarrow> 'g list \<Rightarrow> error + 'm list"
where
  "decryptEventLog ALLOWED_DECRYPTION_TYPES env publicInputs type guessers =
     (let entry = js_object_get ALLOWED_DECRYPTION_TYPES type in
      if entry = Undefined then Inl UnknownTransactionType
      else
        (case decompress_from (edwardsDecompress env) publicInputs
                (position_of PUBLIC_INPUTS_START_POSITION entry)
                (position_of PUBLIC_INPUTS_END_POSITION entry) of
           Inl err \<Rightarrow> Inl err
         | Inr c \<Rightarrow>
             (case dec env c of
                Inl err \<Rightarrow> Inl err
              | Inr m \<Rightarrow> bruteForce_loop (bruteForce env) m guessers 0 [])))"

text \<open>Mapping a function that may throw over a list: the first error wins.\<close>

fun map_err :: "('a \<Rightarrow> error + 'b) \<Rightarrow> 'a list \<Rightarrow> error + 'b list" where
  "map_err f [] = Inr []"
| "map_err f (x # xs) =
     (case f x of
        Inl err \<Rightarrow> Inl err
      | Inr y \<Rightarrow> (case map_err f xs of Inl err \<Rightarrow> Inl err | Inr ys \<Rightarrow> Inr (y # ys)))"

section \<open>contractUtils: \<^verbatim>\<open>getWeb3ContractInstance\<close>\<close>

text \<open>The table of contract artefacts, relative to the working directory of the process.\<close>

definition contractMapping :: "string \<Rightarrow> (string \<rightharpoonup> string)" where
  "contractMapping cwd =
     [''NFTokenShield'' \<mapsto> cwd @ ''/build/contracts/NFTokenShield.json'',
      ''ERC721Interface'' \<mapsto> cwd @ ''/build/contracts/ERC721Interface.json'',
      ''FTokenShield'' \<mapsto> cwd @ ''/build/contracts/FTokenShield.json'',
      ''ERC20Interface'' \<mapsto> cwd @ ''/build/contracts/ERC20Interface.json'']"

text \<open>
  Reading and parsing the artefact is a parameter that may fail; the result is the
  contract object, that is the interface description paired with the address. No request
  is sent to the ledger.
\<close>

definition getWeb3ContractInstance ::
  "(string \<Rightarrow> error + 'abi) \<Rightarrow> string \<Rightarrow> string \<Rightarrow> string \<Rightarrow> error + ('abi \<times> string)"
where
  "getWeb3ContractInstance readJson cwd contractName contractAddress =
     (case contractMapping cwd contractName of
        None \<Rightarrow> Inl UnknownContractType
      | Some path \<Rightarrow>
          (case readJson path of
             Inl err \<Rightarrow> Inl err
           | Inr abi \<Rightarrow> Inr (abi, contractAddress)))"

section \<open>Computations with a trace\<close>

text \<open>
  A computation yields the events it issued and either the error it threw or its value.
  Sequencing stops at the first error, as an exception does.
\<close>

type_synonym 'a comp = "event list \<times> (error + 'a)"

definition ret :: "'a \<Rightarrow> 'a comp" where
  "ret x = ([], Inr x)"

definition throw :: "error \<Rightarrow> 'a comp" where
  "throw e = ([], Inl e)"

definition local_step :: "error + 'a \<Rightarrow> 'a comp" where
  "local_step r = ([], r)"

definition ext_call :: "event \<Rightarrow> error + 'a \<Rightarrow> 'a comp" where
  "ext_call ev r = ([ev], r)"

definition andThen :: "'a comp \<Rightarrow> ('a \<Rightarrow> 'b comp) \<Rightarrow> 'b comp" where
  "andThen m f =
     (case snd m of
        Inl e \<Rightarrow> (fst m, Inl e)
      | Inr x \<Rightarrow> (fst m @ fst (f x), snd (f x)))"

section \<open>erc20rc: \<^verbatim>\<open>transfer\<close>\<close>

text \<open>
  A commitment object; the fields are \<^verbatim>\<open>value\<close>, \<^verbatim>\<open>salt\<close>, \<^verbatim>\<open>commitment\<close> and
  \<^verbatim>\<open>commitmentIndex\<close> of the source.
\<close>

record commitment_obj =
  c_value :: string
  c_salt :: string
  c_commitment :: string
  c_commitmentIndex :: int

text \<open>
  \<^verbatim>\<open>blockchainOptions\<close>; \<open>erc20AddressHex\<close> is \<^verbatim>\<open>new GN(erc20Address).hex(32)\<close>.
\<close>

record blockchain_options =
  erc20AddressHex :: string
  fTokenShieldAddress :: string
  account :: string

text \<open>What the checks have established when proving starts.\<close>

record 'pt transfer_ctx =
  x_root :: "string option"
  x_nullifiers :: "string \<times> string"
  x_commitments :: "string \<times> string"
  x_senderPublicKey :: string
  x_senderTree :: "string tree_data"
  x_receiverTree :: "string tree_data"
  x_paths :: "string list \<times> string list"
  x_encryption :: "'pt list"
  x_randomSecret :: int

text \<open>
  The collaborators of \<^verbatim>\<open>transfer\<close> that are not part of the sources at hand. Each may
  fail. The whitelist tree is read once for the sender and once for the receiver, and the
  ledger may change in between: \<open>tree_L n\<close> and \<open>tree_M n\<close> are the accessors as the
  \<open>n\<close>-th lookup sees them. Likewise \<open>getSiblingPath n\<close> is the \<open>n\<close>-th request to the
  commitment tree service. \<open>buildInputs\<close> stands for the assembly of the prover's inputs
  (compression of the points, the public input hash, the encoding of the elements).
\<close>

record ('abi, 'pt, 'rcpt) transfer_env =
  readContractJson :: "string \<Rightarrow> error + 'abi"
  cwd :: string
  hashes :: "string hash_env"
  randomHex :: "nat \<Rightarrow> error + string"
  enc :: "int \<Rightarrow> string list \<Rightarrow> error + 'pt list"
  PUBLIC_KEY_TREE_HEIGHT :: nat
  fieldPrime :: int
  tree_L :: "nat \<Rightarrow> string \<Rightarrow> nat"
  tree_M :: "nat \<Rightarrow> int \<Rightarrow> string"
  getSiblingPath :: "nat \<Rightarrow> string \<Rightarrow> int \<Rightarrow> error + string list"
  checkRoot :: "string \<Rightarrow> int \<Rightarrow> string list \<Rightarrow> string option \<Rightarrow> error + unit"
  buildInputs :: "'pt transfer_ctx \<Rightarrow> error + string list"
  computeWitness :: "string list \<Rightarrow> error + unit"
  generateProof :: "error + unit"
  readProof :: "error + string list"
  sendTransferRC :: "string list \<Rightarrow> 'pt transfer_ctx \<Rightarrow> error + 'rcpt"
  newLeafIndex :: "'rcpt \<Rightarrow> error + int"

text \<open>Number addition and comparison, \<open>None\<close> being NaN.\<close>

definition js_add :: "int option \<Rightarrow> int option \<Rightarrow> int option" where
  "js_add a b = (case a of None \<Rightarrow> None | Some x \<Rightarrow> (case b of None \<Rightarrow> None | Some y \<Rightarrow> Some (x + y)))"

definition js_gt :: "int option \<Rightarrow> int \<Rightarrow> bool" where
  "js_gt a n = (case a of None \<Rightarrow> False | Some x \<Rightarrow> n < x)"

text \<open>Slot \<open>i\<close> of an array that may have holes.\<close>

definition js_slot :: "'a option list \<Rightarrow> nat \<Rightarrow> 'a option" where
  "js_slot xs i = (if i < length xs then xs ! i else None)"

text \<open>
  \<^verbatim>\<open>getPublicKeyTreeData\<close> called on a key string: \<^verbatim>\<open>BigInt(_key)\<close> throws on a string that is
  not a number, before any accessor is called.
\<close>

definition getPublicKeyTreeData_str ::
  "nat \<Rightarrow> int \<Rightarrow> (string \<Rightarrow> nat) \<Rightarrow> (int \<Rightarrow> 'v) \<Rightarrow> string \<Rightarrow> ('v tree_data) comp"
where
  "getPublicKeyTreeData_str H zp L M key =
     (case js_BigInt key of
        None \<Rightarrow> throw SyntaxError
      | Some k \<Rightarrow> getPublicKeyTreeData H zp L M k)"

text \<open>
  The first part of \<^verbatim>\<open>transfer\<close>, from its entry to the comparison of the roots of the
  two commitment paths and the two calls of \<^verbatim>\<open>checkRoot\<close>.
\<close>

definition transfer_checks ::
  "('abi, 'pt, 'rcpt) transfer_env \<Rightarrow> commitment_obj \<times> commitment_obj
     \<Rightarrow> commitment_obj \<times> commitment_obj \<Rightarrow> string \<Rightarrow> string \<Rightarrow> blockchain_options
     \<Rightarrow> ('pt transfer_ctx) comp"
where
  "transfer_checks env inputCommitments outputCommitments receiverPublicKey senderSecretKey
       blockchainOptions =
     andThen (ext_call (GetContractInstance ''FTokenShield'' (fTokenShieldAddress blockchainOptions))
                (getWeb3ContractInstance (readContractJson env) (cwd env) ''FTokenShield''
                   (fTokenShieldAddress blockchainOptions)))
     (\<lambda>fTokenShieldInstance.
     let inputSum = js_add (js_parseInt16 (c_value (fst inputCommitments)))
                           (js_parseInt16 (c_value (snd inputCommitments)));
         outputSum = js_add (js_parseInt16 (c_value (fst outputCommitments)))
                            (js_parseInt16 (c_value (snd outputCommitments)))
     in
     if js_gt inputSum 0xffffffffff \<or> js_gt outputSum 0xffffffffff then throw InputTooLarge
     else
     let senderPublicKey = shaHash (hashes env) [senderSecretKey] in
     andThen (local_step (concatenateThenHash (hashes env)
                [c_salt (fst inputCommitments), senderSecretKey]))
     (\<lambda>nullifier0.
     andThen (local_step (concatenateThenHash (hashes env)
                [c_salt (snd inputCommitments), senderSecretKey]))
     (\<lambda>nullifier1.
     andThen (local_step (concatenateThenHash (hashes env)
                [erc20AddressHex blockchainOptions, c_value (fst outputCommitments),
                 receiverPublicKey, c_salt (fst outputCommitments)]))
     (\<lambda>commitment0.
     andThen (local_step (concatenateThenHash (hashes env)
                [erc20AddressHex blockchainOptions, c_value (snd outputCommitments),
                 senderPublicKey, c_salt (snd outputCommitments)]))
     (\<lambda>commitment1.
     andThen (ext_call (RandomHex 31) (randomHex env 31))
     (\<lambda>hex.
     andThen (local_step (case js_BigInt hex of None \<Rightarrow> Inl SyntaxError | Some n \<Rightarrow> Inr n))
     (\<lambda>randomSecret.
     andThen (local_step (enc env randomSecret
                [c_value (fst outputCommitments), senderPublicKey, receiverPublicKey]))
     (\<lambda>encryption.
     andThen (getPublicKeyTreeData_str (PUBLIC_KEY_TREE_HEIGHT env) (fieldPrime env)
                (tree_L env 0) (tree_M env 0) senderPublicKey)
     (\<lambda>senderPublicKeyTreeData.
     andThen (getPublicKeyTreeData_str (PUBLIC_KEY_TREE_HEIGHT env) (fieldPrime env)
                (tree_L env 1) (tree_M env 1) receiverPublicKey)
     (\<lambda>receiverPublicKeyTreeData.
     if js_slot (siblingPath senderPublicKeyTreeData) 0
          \<noteq> js_slot (siblingPath receiverPublicKeyTreeData) 0
     then throw WhitelistRootsDiffer
     else
     andThen (ext_call (GetSiblingPath (c_commitment (fst inputCommitments))
                          (c_commitmentIndex (fst inputCommitments)))
                (getSiblingPath env 0 (c_commitment (fst inputCommitments))
                   (c_commitmentIndex (fst inputCommitments))))
     (\<lambda>siblingPath0.
     andThen (ext_call (GetSiblingPath (c_commitment (snd inputCommitments))
                          (c_commitmentIndex (snd inputCommitments)))
                (getSiblingPath env 1 (c_commitment (snd inputCommitments))
                   (c_commitmentIndex (snd inputCommitments))))
     (\<lambda>siblingPath1.
     if js_get siblingPath0 0 \<noteq> js_get siblingPath1 0 then throw NoCommonRoot
     else
     let root = js_get siblingPath0 0 in
     andThen (local_step (checkRoot env (c_commitment (fst inputCommitments))
                (c_commitmentIndex (fst inputCommitments)) siblingPath0 root))
     (\<lambda>u0.
     andThen (local_step (checkRoot env (c_commitment (snd inputCommitments))
                (c_commitmentIndex (snd inputCommitments)) siblingPath1 root))
     (\<lambda>u1.
     ret \<lparr>x_root = root, x_nullifiers = (nullifier0, nullifier1),
          x_commitments = (commitment0, commitment1), x_senderPublicKey = senderPublicKey,
          x_senderTree = senderPublicKeyTreeData, x_receiverTree = receiverPublicKeyTreeData,
          x_paths = (siblingPath0, siblingPath1), x_encryption = encryption,
          x_randomSecret = randomSecret\<rparr>))))))))))))))"

text \<open>
  The second part: the witness, the proof, the transaction and the indices of the new
  leaves, which the two output commitments receive.
\<close>

definition transfer_prove ::
  "('abi, 'pt, 'rcpt) transfer_env \<Rightarrow> commitment_obj \<times> commitment_obj \<Rightarrow> 'pt transfer_ctx
     \<Rightarrow> ((commitment_obj \<times> commitment_obj) \<times> 'rcpt) comp"
where
  "transfer_prove env outputCommitments ctx =
     andThen (local_step (buildInputs env ctx))
     (\<lambda>allInputs.
     andThen (ext_call ComputeWitness (computeWitness env allInputs))
     (\<lambda>u0.
     andThen (ext_call GenerateProof (generateProof env))
     (\<lambda>u1.
     andThen (ext_call ReadProofFile (readProof env))
     (\<lambda>proof.
     andThen (ext_call SendTransferRC (sendTransferRC env proof ctx))
     (\<lambda>txReceipt.
     andThen (ext_call GetPastEvents (newLeafIndex env txReceipt))
     (\<lambda>minLeafIndex.
     ret (((fst outputCommitments)\<lparr>c_commitment := fst (x_commitments ctx),
                                    c_commitmentIndex := minLeafIndex\<rparr>,
           (snd outputCommitments)\<lparr>c_commitment := snd (x_commitments ctx),
                                    c_commitmentIndex := minLeafIndex + 1\<rparr>),
          txReceipt)))))))"

definition transfer ::
  "('abi, 'pt, 'rcpt) transfer_env \<Rightarrow> commitment_obj \<times> commitment_obj
     \<Rightarrow> commitment_obj \<times> commitment_obj \<Rightarrow> string \<Rightarrow> string \<Rightarrow> blockchain_options
     \<Rightarrow> ((commitment_obj \<times> commitment_obj) \<times> 'rcpt) comp"
where
  "transfer env inputCommitments outputCommitments receiverPublicKey senderSecretKey
       blockchainOptions =
     andThen (transfer_checks env inputCommitments outputCommitments receiverPublicKey
                senderSecretKey blockchainOptions)
       (transfer_prove env outputCommitments)"


text \<open>A computation that ends in an error, and one that issues no proving event.\<close>

definition fails :: "'a comp \<Rightarrow> bool" where
  "fails m = (case snd m of Inl e \<Rightarrow> True | Inr x \<Rightarrow> False)"




text \<open>
  The two values of a pair of commitments parse to non-negative numbers whose sum is above
  \<^verbatim>\<open>0xffffffffff\<close>. On non-negative values the comparison of the Number sum agrees with
  the comparison of the exact sum, whatever their size.
\<close>

definition sum_exceeds_limit :: "commitment_obj \<times> commitment_obj \<Rightarrow> bool" where
  "sum_exceeds_limit cs =
     (case js_parseInt16 (c_value (fst cs)) of
        None \<Rightarrow> False
      | Some a \<Rightarrow>
          (case js_parseInt16 (c_value (snd cs)) of
             None \<Rightarrow> False
           | Some b \<Rightarrow> 0 \<le> a \<and> 0 \<le> b \<and> 0xffffffffff < a + b))"

section \<open>elgamal and number-theory: the Edwards point codec\<close>

text \<open>
  The modules that hold \<^verbatim>\<open>edwardsCompress\<close>, \<^verbatim>\<open>edwardsDecompress\<close> and
  \<^verbatim>\<open>squareRootModPrime\<close> are not part of the sources at hand (the test of the round trip
  is). The definitions of this section follow the specification instead.
\<close>

text \<open>
  Modelled from the spec: the parameters of the twisted Edwards curve
  \<open>a x\<^sup>2 + y\<^sup>2 = 1 + d x\<^sup>2 y\<^sup>2\<close> over the field of integers modulo \<open>p\<close>, which the absent
  configuration module fixes; \<open>cp_w\<close> is the number of low bits that hold the
  \<open>y\<close> coordinate, the sign bit being the bit above them.
\<close>

record curve_params =
  cp_p :: int
  cp_a :: int
  cp_d :: int
  cp_w :: nat

text \<open>
  Modelled from the spec: the field modulus is a prime; no primality test is part of the
  sources at hand. Trial division decides it.
\<close>

definition is_prime :: "int \<Rightarrow> bool" where
  "is_prime p = (1 < p \<and> list_all (\<lambda>m. \<not> m dvd p) [2..p - 1])"

text \<open>
  Modelled from the spec: a curve point is a pair of field elements that satisfies the
  curve equation (the membership check of the absent elgamal module).
\<close>

definition on_curve :: "curve_params \<Rightarrow> int \<times> int \<Rightarrow> bool" where
  "on_curve C P =
     (case P of (x, y) \<Rightarrow>
        0 \<le> x \<and> x < cp_p C \<and> 0 \<le> y \<and> y < cp_p C \<and>
        (cp_a C * (x * x) + y * y) mod cp_p C = (1 + cp_d C * (x * x) * (y * y)) mod cp_p C)"

text \<open>
  Modelled from the spec: \<^verbatim>\<open>sqrtModPrime(n, p)\<close> of the absent number-theory module returns
  \<open>r\<close> with \<open>r\<^sup>2 \<equiv> n (mod p)\<close> and fails with \<^verbatim>\<open>NonResidue\<close> if there is none; the
  canonical root returned is the smaller one of \<open>r\<close> and \<open>p - r\<close>.
\<close>

definition spec_sqrtModPrime :: "int \<Rightarrow> int \<Rightarrow> error + int" where
  "spec_sqrtModPrime n p =
     (case List.find (\<lambda>r. r * r mod p = n mod p) [0..p - 1] of
        None \<Rightarrow> Inl NonResidue
      | Some r \<Rightarrow> Inr r)"

text \<open>
  Modelled from the spec: the division modulo \<open>p\<close> that the decoder of the absent elgamal
  module uses for \<open>(y\<^sup>2 - 1) / (d y\<^sup>2 - a)\<close>: the numerator times the inverse of the
  denominator, and no result when the denominator has no inverse.
\<close>

definition spec_modDivide :: "int \<Rightarrow> int \<Rightarrow> int \<Rightarrow> int option" where
  "spec_modDivide num den p =
     (case List.find (\<lambda>v. den * v mod p = 1 mod p) [0..p - 1] of
        None \<Rightarrow> None
      | Some v \<Rightarrow> Some (num * v mod p))"

text \<open>
  Modelled from the spec: \<^verbatim>\<open>compress\<close> of the absent elgamal module fails with
  \<^verbatim>\<open>InvalidPoint\<close> if the point does not satisfy the curve equation and otherwise returns
  the \<open>y\<close> coordinate in the low bits and the parity of \<open>x\<close> in the top bit. The component
  design names no other failure, so the identity \<open>(0, 1)\<close> is encoded like every point.
\<close>

definition spec_edwardsCompress :: "curve_params \<Rightarrow> int \<times> int \<Rightarrow> error + int" where
  "spec_edwardsCompress C P =
     (if \<not> on_curve C P then Inl InvalidPoint
      else Inr (snd P + (fst P mod 2) * 2 ^ cp_w C))"

text \<open>
  Modelled from the spec: \<^verbatim>\<open>decompress\<close> of the absent elgamal module extracts the sign bit
  and the candidate \<open>y\<close>, derives \<open>x\<^sup>2 = (y\<^sup>2 - 1) / (d y\<^sup>2 - a)\<close> modulo \<open>p\<close>, takes the
  modular square root, fails with \<^verbatim>\<open>InvalidEncoding\<close> if there is none, and of the two
  roots \<open>r\<close> and \<open>p - r\<close> selects the one whose parity matches the stored bit.
\<close>

definition spec_edwardsDecompress :: "curve_params \<Rightarrow> int \<Rightarrow> error + int \<times> int" where
  "spec_edwardsDecompress C v =
     (let sign = (v div 2 ^ cp_w C) mod 2;
          y = v mod 2 ^ cp_w C
      in case spec_modDivide (y * y - 1) (cp_d C * (y * y) - cp_a C) (cp_p C) of
           None \<Rightarrow> Inl InvalidEncoding
         | Some x2 \<Rightarrow>
             (case spec_sqrtModPrime x2 (cp_p C) of
                Inl e \<Rightarrow> Inl InvalidEncoding
              | Inr r \<Rightarrow> Inr (if r mod 2 = sign then r else cp_p C - r, y)))"

section \<open>The heap-indexed tree the walk is compared with\<close>

text \<open>
  The root is node \<open>0\<close> (the code reads \<^verbatim>\<open>M(0)\<close> as the root) and the children of node
  \<open>q\<close> are \<open>2q + 1\<close> and \<open>2q + 2\<close>, so the leaves of a tree of height \<open>H\<close> are the nodes
  \<open>2 ^ H - 1 .. 2 ^ (H + 1) - 2\<close>.
\<close>

definition sibling_of :: "int \<Rightarrow> int" where
  "sibling_of n = (if even n then n - 1 else n + 1)"

definition parent_of :: "int \<Rightarrow> int" where
  "parent_of n = (n - 1) div 2"

fun up_walk :: "nat \<Rightarrow> int \<Rightarrow> int list" where
  "up_walk 0 p = []"
| "up_walk (Suc n) p = p # up_walk n (parent_of p)"

definition is_child :: "int \<Rightarrow> int \<Rightarrow> bool" where
  "is_child c q = (c = 2 * q + 1 \<or> c = 2 * q + 2)"

definition is_sibling :: "int \<Rightarrow> int \<Rightarrow> bool" where
  "is_sibling s n = (s \<noteq> n \<and> is_child s (parent_of n) \<and> is_child n (parent_of n))"

fun is_chain_down :: "int \<Rightarrow> int list \<Rightarrow> bool" where
  "is_chain_down q [] = True"
| "is_chain_down q (n # ns) = (is_child n q \<and> is_chain_down n ns)"

definition anc :: "nat \<Rightarrow> int \<Rightarrow> int" where
  "anc n p = (parent_of ^^ n) p"

definition root_to_leaf :: "nat \<Rightarrow> int \<Rightarrow> int list" where
  "root_to_leaf H p = rev (up_walk H p)"

section \<open>Fixed-width hexadecimal\<close>

text \<open>The \<open>w\<close> low hexadecimal digits of \<open>n\<close>, most significant first.\<close>

fun fixed_hex :: "nat \<Rightarrow> nat \<Rightarrow> string" where
  "fixed_hex 0 n = []"
| "fixed_hex (Suc w) n = fixed_hex w (n div 16) @ [hex_digit (n mod 16)]"

text \<open>
  The walk as the specification words it: at a level with current index \<open>p\<close> the sibling
  is \<open>p - 1\<close> and the parent \<open>floor((p - 1) / 2)\<close> when \<open>p\<close> is even, and the sibling is
  \<open>p + 1\<close> and the parent \<open>floor(p / 2)\<close> when \<open>p\<close> is odd. Each level is recorded as
  (current index, sibling index, next index).
\<close>

fun spec_level_walk :: "nat \<Rightarrow> int \<Rightarrow> (int \<times> int \<times> int) list" where
  "spec_level_walk 0 p = []"
| "spec_level_walk (Suc n) p =
     (if even p then (p, p - 1, (p - 1) div 2) # spec_level_walk n ((p - 1) div 2)
      else (p, p + 1, p div 2) # spec_level_walk n (p div 2))"

fun is_CallL :: "event \<Rightarrow> bool" where
  "is_CallL (CallL key) = True"
| "is_CallL e = False"

fun is_CallM :: "event \<Rightarrow> bool" where
  "is_CallM (CallM i) = True"
| "is_CallM e = False"

section \<open>A concrete tree snapshot\<close>

text \<open>
  The field modulus \<^verbatim>\<open>ZOKRATES_PRIME\<close> comes from the configuration module; its value is
  the one quoted in the comment of \<^verbatim>\<open>formatInputsForZkSnark\<close>. The functions above take
  the modulus as an argument; the constant is used in concrete evaluations.
\<close>

definition ZOKRATES_PRIME :: int where
  "ZOKRATES_PRIME =
     21888242871839275222246405745257275088548364400416034343698204186575808495617"

text \<open>
  A height-3 tree (nodes \<open>0 .. 14\<close>, leaves \<open>7 .. 14\<close>) whose node \<open>i\<close> holds the value
  \<open>100 + i\<close>, and a lookup that places every key at node \<open>9\<close>.
\<close>

definition example_L :: "string \<Rightarrow> nat" where
  "example_L key = 9"

definition example_M :: "int \<Rightarrow> int" where
  "example_M i = 100 + i"

section \<open>A concrete event log\<close>

text \<open>
  A configuration with the one type \<^verbatim>\<open>Transfer\<close>, whose ciphertext block is at positions
  \<open>6 .. 9\<close>, and stand-ins for the elgamal functions over numbers: decompression adds 100
  and rejects \<^verbatim>\<open>undefined\<close>, decryption drops the leading point, and the search subtracts
  the guess it is given.
\<close>

definition example_types :: "string \<rightharpoonup> decryption_type" where
  "example_types =
     [''Transfer'' \<mapsto> \<lparr>PUBLIC_INPUTS_START_POSITION = 6, PUBLIC_INPUTS_END_POSITION = 10\<rparr>]"

fun example_decompress :: "nat option \<Rightarrow> error + nat" where
  "example_decompress None = Inl (External ''TypeError'')"
| "example_decompress (Some v) = Inr (100 + v)"

fun example_dec :: "nat list \<Rightarrow> error + nat list" where
  "example_dec [] = Inl (External ''empty ciphertext'')"
| "example_dec (r # cs) = Inr cs"

fun example_bruteForce :: "nat \<Rightarrow> nat option \<Rightarrow> error + nat" where
  "example_bruteForce pt None = Inl (External ''no guesser'')"
| "example_bruteForce pt (Some g) = Inr (pt - g)"

definition example_elgamal :: "(nat, nat, nat, nat) elgamal_env" where
  "example_elgamal =
     \<lparr>edwardsDecompress = example_decompress, dec = example_dec,
      bruteForce = example_bruteForce\<rparr>"

section \<open>A concrete hash configuration\<close>

text \<open>
  Stand-ins for the external hash primitives: \<^verbatim>\<open>ensure0x\<close> adds the prefix when it is
  missing, the MiMC stand-in sums its inputs and the SHA stand-in concatenates them.
\<close>

definition example_ensure0x :: "string \<Rightarrow> string" where
  "example_ensure0x s = (if take 2 s = ''0x'' then s else ''0x'' @ s)"

definition example_mimc :: "int list \<Rightarrow> string \<Rightarrow> int" where
  "example_mimc bs curve = sum_list bs"

definition example_hash_env :: "string option \<Rightarrow> string option \<Rightarrow> string hash_env" where
  "example_hash_env c e =
     \<lparr>config_HASH_TYPE = c, env_HASH_TYPE = e, ensure0x = example_ensure0x,
      mimcHash = example_mimc, shaHash = concat\<rparr>"

section \<open>A concrete transfer\<close>

text \<open>
  An environment in which every collaborator succeeds. The flag \<open>wl\<close> makes the second
  whitelist lookup see another root than the first, the flag \<open>cm\<close> makes the second
  commitment path start at another root than the first.
\<close>

definition example_env :: "bool \<Rightarrow> bool \<Rightarrow> (unit, nat, unit) transfer_env" where
  "example_env wl cm =
     \<lparr>readContractJson = (\<lambda>path. Inr ()),
      cwd = ''/app'',
      hashes = example_hash_env None None,
      randomHex = (\<lambda>n. Inr ''0x2a''),
      enc = (\<lambda>r ms. Inr [nat r]),
      PUBLIC_KEY_TREE_HEIGHT = 3,
      fieldPrime = ZOKRATES_PRIME,
      tree_L = (\<lambda>n key. 9),
      tree_M = (\<lambda>n i. if i = 0 \<and> wl \<and> n = 1 then ''root2'' else ''root1''),
      getSiblingPath = (\<lambda>n c i. Inr [if cm \<and> n = 1 then ''r2'' else ''r1'', ''s'']),
      checkRoot = (\<lambda>c i p r. Inr ()),
      buildInputs = (\<lambda>ctx. Inr [''1'']),
      computeWitness = (\<lambda>inputs. Inr ()),
      generateProof = Inr (),
      readProof = Inr [''2''],
      sendTransferRC = (\<lambda>proof ctx. Inr ()),
      newLeafIndex = (\<lambda>receipt. Inr 4)\<rparr>"

definition example_commitment :: "string \<Rightarrow> commitment_obj" where
  "example_commitment v =
     \<lparr>c_value = v, c_salt = ''0x01'', c_commitment = ''0x02'', c_commitmentIndex = 0\<rparr>"

definition example_options :: blockchain_options where
  "example_options =
     \<lparr>erc20AddressHex = ''0x03'', fTokenShieldAddress = ''0x04'', account = ''0x05''\<rparr>"

section \<open>A concrete curve\<close>

text \<open>The curve \<open>3 x\<^sup>2 + y\<^sup>2 = 1 + 5 x\<^sup>2 y\<^sup>2\<close> over the integers modulo 13, with 4 low bits for the coordinate.\<close>

definition example_curve :: curve_params where
  "example_curve = \<lparr>cp_p = 13, cp_a = 3, cp_d = 5, cp_w = 4\<rparr>"

section \<open>Properties of the upward walk\<close>

lemma js_rem_2_even: "(js_rem p 2 = 0) = even p"
  by (auto simp: js_rem_def sgn_if even_iff_mod_2_eq_zero) 

lemma sibling_step_eq: "sibling_step p = (sibling_of p, parent_of p)"
  by (auto simp: sibling_step_def js_rem_2_even sibling_of_def parent_of_def elim!: oddE)

lemma walk_path_inner:
  "r < length (ws_path st) \<Longrightarrow>
   ws_path (walk M r p st) =
     take 1 (ws_path st) @ rev (map (\<lambda>n. Some (M (sibling_of n))) (up_walk r p))
       @ drop (Suc r) (ws_path st)"
proof (induction r arbitrary: p st)
  case 0
  then show ?case by (cases "ws_path st") simp_all
next
  case (Suc r)
  let ?st' = "\<lparr>ws_path = js_set (ws_path st) (Suc r) (M (sibling_of p)),
               ws_trace = ws_trace st @ [CallM (sibling_of p)]\<rparr>"
  have set: "js_set (ws_path st) (Suc r) (M (sibling_of p)) = (ws_path st)[Suc r := Some (M (sibling_of p))]"
    using Suc.prems by (simp add: js_set_def)
  have len: "r < length (ws_path ?st')" using Suc.prems by (simp add: set)
  have dr: "drop (Suc r) ((ws_path st)[Suc r := Some (M (sibling_of p))])
        = Some (M (sibling_of p)) # drop (Suc (Suc r)) (ws_path st)"
    using Suc.prems by (metis Cons_nth_drop_Suc drop_update_cancel length_list_update lessI nth_list_update_eq)
  have "ws_path (walk M (Suc r) p st) = ws_path (walk M r (parent_of p) ?st')"
    by (simp add: sibling_step_eq)
  also have "\<dots> = take 1 (ws_path ?st') @ rev (map (\<lambda>n. Some (M (sibling_of n))) (up_walk r (parent_of p)))
       @ drop (Suc r) (ws_path ?st')"
    by (rule Suc.IH [OF len])
  finally show ?case using Suc.prems by (simp add: set dr)
qed

lemma walk_trace:
  "ws_trace (walk M r p st) = ws_trace st @ map (\<lambda>n. CallM (sibling_of n)) (up_walk r p)"
  by (induction r arbitrary: p st) (simp_all add: sibling_step_eq)

lemma walk_path_top:
  "js_set (ws_path (walk M H p \<lparr>ws_path = [], ws_trace = tr\<rparr>)) 0 (M 0) =
     Some (M 0) # rev (map (\<lambda>n. Some (M (sibling_of n))) (up_walk H p))"
proof (cases H)
  case 0
  then show ?thesis by (simp add: js_set_def)
next
  case (Suc h)
  let ?st' = "\<lparr>ws_path = replicate (Suc h) None @ [Some (M (sibling_of p))],
               ws_trace = tr @ [CallM (sibling_of p)]\<rparr>"
  have "ws_path (walk M H p \<lparr>ws_path = [], ws_trace = tr\<rparr>) = ws_path (walk M h (parent_of p) ?st')"
    by (simp add: Suc sibling_step_eq js_set_def)
  also have "\<dots> = take 1 (ws_path ?st') @ rev (map (\<lambda>n. Some (M (sibling_of n))) (up_walk h (parent_of p)))
       @ drop (Suc h) (ws_path ?st')"
    by (rule walk_path_inner) simp
  finally show ?thesis by (simp add: Suc js_set_def)
qed

lemma getPublicKeyTreeData_ok:
  assumes "FIRST_LEAF_INDEX H \<le> int (L (canonical_key zp k))"
  shows "getPublicKeyTreeData H zp L M k =
     (CallL (canonical_key zp k) # map (\<lambda>n. CallM (sibling_of n)) (up_walk H (int (L (canonical_key zp k)))) @ [CallM 0],
      Inr \<lparr>leafIndex = int (L (canonical_key zp k)) - FIRST_LEAF_INDEX H,
           siblingPath = Some (M 0) # rev (map (\<lambda>n. Some (M (sibling_of n))) (up_walk H (int (L (canonical_key zp k)))))\<rparr>)"
  using assms by (simp add: getPublicKeyTreeData_def Let_def walk_path_top walk_trace)

lemma getPublicKeyTreeData_throw:
  assumes "int (L (canonical_key zp k)) < FIRST_LEAF_INDEX H"
  shows "getPublicKeyTreeData H zp L M k = ([CallL (canonical_key zp k)], Inl KeyNotWhitelisted)"
  using assms by (simp add: getPublicKeyTreeData_def Let_def)

section \<open>Properties of the tree indexing\<close>

lemma is_child_parent: "1 \<le> p \<Longrightarrow> is_child p (parent_of p)"
  unfolding is_child_def parent_of_def by presburger

lemma parent_lower: "2 ^ Suc n - 1 \<le> p \<Longrightarrow> 2 ^ n - 1 \<le> parent_of p"
  unfolding parent_of_def by simp

lemma parent_upper: "p \<le> 2 ^ Suc (Suc n) - 2 \<Longrightarrow> parent_of p \<le> 2 ^ Suc n - 2"
  unfolding parent_of_def by simp

lemma is_sibling_sibling_of: "1 \<le> n \<Longrightarrow> is_sibling (sibling_of n) n"
  unfolding is_sibling_def is_child_def parent_of_def sibling_of_def by presburger

lemma leaf_ge1: "2 ^ Suc n - 1 \<le> p \<Longrightarrow> (1::int) \<le> p"
proof -
  assume a: "2 ^ Suc n - 1 \<le> p"
  have "(1::int) \<le> 2 ^ n" by simp
  moreover have "(2::int) ^ Suc n = 2 * 2 ^ n" by simp
  ultimately show ?thesis using a by linarith
qed

lemma length_up_walk: "length (up_walk n p) = n"
  by (induction n arbitrary: p) simp_all

lemma up_walk_ge1: "2 ^ n - 1 \<le> p \<Longrightarrow> q \<in> set (up_walk n p) \<Longrightarrow> 1 \<le> q"
proof (induction n arbitrary: p)
  case 0 then show ?case by simp
next
  case (Suc n)
  have p1: "1 \<le> p" using Suc.prems(1) by (rule leaf_ge1)
  have low: "2 ^ n - 1 \<le> parent_of p" using Suc.prems(1) by (rule parent_lower)
  from Suc.prems(2) have "q = p \<or> q \<in> set (up_walk n (parent_of p))" by simp
  then show ?case using p1 Suc.IH [OF low] by blast
qed

lemma up_walk_le: "- 1 \<le> r \<Longrightarrow> q \<in> set (up_walk n r) \<Longrightarrow> q \<le> r"
proof (induction n arbitrary: r)
  case 0 then show ?case by simp
next
  case (Suc n)
  have "- 1 \<le> parent_of r" "parent_of r \<le> r" using Suc.prems(1) unfolding parent_of_def by presburger+
  from Suc.prems(2) have "q = r \<or> q \<in> set (up_walk n (parent_of r))" by simp
  then show ?case using Suc.IH [of "parent_of r"] \<open>- 1 \<le> parent_of r\<close> \<open>parent_of r \<le> r\<close> by fastforce
qed

lemma anc_Suc: "anc (Suc n) p = anc n (parent_of p)"
  by (simp add: anc_def funpow_swap1)

lemma anc_root: "2 ^ n - 1 \<le> p \<Longrightarrow> p \<le> 2 ^ Suc n - 2 \<Longrightarrow> anc n p = 0"
proof (induction n arbitrary: p)
  case 0 then show ?case by (simp add: anc_def)
next
  case (Suc n)
  show ?case unfolding anc_Suc
    by (rule Suc.IH [OF parent_lower [OF Suc.prems(1)] parent_upper [OF Suc.prems(2)]])
qed

lemma is_chain_down_snoc:
  "is_chain_down q (xs @ [p]) = (is_chain_down q xs \<and> is_child p (last (q # xs)))"
  by (induction xs arbitrary: q) auto

lemma last_root_to_leaf: "0 < n \<Longrightarrow> last (root_to_leaf n p) = p"
  by (cases n) (simp_all add: root_to_leaf_def)

lemma chain_root_to_leaf:
  "2 ^ n - 1 \<le> p \<Longrightarrow> is_chain_down (anc n p) (root_to_leaf n p)"
proof (induction n arbitrary: p)
  case 0 then show ?case by (simp add: root_to_leaf_def)
next
  case (Suc n)
  have p1: "1 \<le> p" using Suc.prems by (rule leaf_ge1)
  have IH: "is_chain_down (anc n (parent_of p)) (root_to_leaf n (parent_of p))"
    by (rule Suc.IH [OF parent_lower [OF Suc.prems]])
  have lst: "last (anc n (parent_of p) # root_to_leaf n (parent_of p)) = parent_of p"
    by (cases n) (simp_all add: root_to_leaf_def anc_def)
  have "root_to_leaf (Suc n) p = root_to_leaf n (parent_of p) @ [p]"
    by (simp add: root_to_leaf_def)
  then show ?case
    using IH lst is_child_parent [OF p1] by (simp add: anc_Suc is_chain_down_snoc del: last.simps)
qed

lemma leaf_not_read:
  assumes "0 < H" "2 ^ H - 1 \<le> p"
  shows "p \<notin> set (0 # map sibling_of (root_to_leaf H p))"
proof -
  obtain h where H: "H = Suc h" using assms(1) by (cases H) auto
  have p1: "1 \<le> p" using assms(2) unfolding H by (rule leaf_ge1)
  have low: "2 ^ h - 1 \<le> parent_of p" using assms(2) unfolding H by (rule parent_lower)
  have "sibling_of q \<noteq> p" if "q \<in> set (up_walk h (parent_of p))" for q
  proof -
    have "1 \<le> q" using up_walk_ge1 [OF low that] .
    moreover have "q \<le> parent_of p"
      using up_walk_le [OF _ that] p1 unfolding parent_of_def by presburger
    ultimately show ?thesis unfolding sibling_of_def parent_of_def by presburger
  qed
  moreover have "sibling_of p \<noteq> p" by (simp add: sibling_of_def)
  ultimately show ?thesis using p1 by (auto simp: H root_to_leaf_def)
qed

section \<open>Properties of the key encoding\<close>

lemma js_rem_nonneg: "0 \<le> k \<Longrightarrow> 0 < m \<Longrightarrow> js_rem k m = k mod m"
  by (simp add: js_rem_def sgn_if)

lemma length_fixed_hex: "length (fixed_hex w n) = w"
  by (induction w arbitrary: n) simp_all

lemma fixed_hex_0: "fixed_hex w 0 = replicate w CHR ''0''"
  by (induction w) (simp_all add: hex_digit_def replicate_append_same)

lemma padStart_snoc: "padStart (Suc w) c (xs @ [d]) = padStart w c xs @ [d]"
  by (simp add: padStart_def)

lemma padStart_hex_of_nat: "n < 16 ^ Suc w \<Longrightarrow> padStart (Suc w) CHR ''0'' (hex_of_nat n) = fixed_hex (Suc w) n"
proof (induction w arbitrary: n)
  case 0
  then show ?case by (simp add: hex_of_nat.simps [of n] padStart_def)
next
  case (Suc w)
  show ?case
  proof (cases "n < 16")
    case True
    then have "fixed_hex (Suc (Suc w)) n = replicate (Suc w) CHR ''0'' @ [hex_digit n]"
      by (simp add: fixed_hex_0 del: replicate_Suc)
    then show ?thesis using True by (simp add: hex_of_nat.simps [of n] padStart_def)
  next
    case False
    have "n div 16 < 16 ^ Suc w" using Suc.prems by (simp add: less_mult_imp_div_less)
    then have "padStart (Suc w) CHR ''0'' (hex_of_nat (n div 16)) = fixed_hex (Suc w) (n div 16)"
      by (rule Suc.IH)
    then show ?thesis using False
      by (simp add: hex_of_nat.simps [of n] padStart_snoc del: fixed_hex.simps)
         (simp)
  qed
qed

lemma canonical_key_fixed:
  assumes "0 \<le> k" "0 < zp" "zp \<le> 2 ^ 256"
  shows "canonical_key zp k = ''0x'' @ fixed_hex 64 (nat (k mod zp))"
proof -
  have "k mod zp < 2 ^ 256" using assms by (smt (verit) pos_mod_bound)
  then have "nat (k mod zp) < 16 ^ Suc 63" using assms by (simp add: nat_less_iff)
  then have "padStart (Suc 63) CHR ''0'' (hex_of_nat (nat (k mod zp))) = fixed_hex (Suc 63) (nat (k mod zp))"
    by (rule padStart_hex_of_nat)
  moreover have "\<not> k mod zp < 0" using assms by (simp add: not_less)
  ultimately show ?thesis using assms(1,2) by (simp add: canonical_key_def js_rem_nonneg toString16_def)
qed

lemma hex_digit_in: "d < 16 \<Longrightarrow> hex_digit d \<in> set ''0123456789abcdef''"
  unfolding hex_digit_def by (rule nth_mem) simp

lemma fixed_hex_chars: "set (fixed_hex w n) \<subseteq> set ''0123456789abcdef''"
proof (induction w arbitrary: n)
  case 0 show ?case by simp
next
  case (Suc w)
  have "hex_digit (n mod 16) \<in> set ''0123456789abcdef''" by (rule hex_digit_in) simp
  then show ?case using Suc.IH [of "n div 16"] by simp
qed

lemma spec_level_walk_siblings:
  "map (\<lambda>(p, s, t). s) (spec_level_walk n p) = map sibling_of (up_walk n p)"
proof (induction n arbitrary: p)
  case 0 show ?case by simp
next
  case (Suc n)
  have "odd p \<Longrightarrow> p div 2 = parent_of p" unfolding parent_of_def by presburger
  then show ?case using Suc.IH by (simp add: sibling_of_def parent_of_def)
qed

lemma length_spec_level_walk: "length (spec_level_walk n p) = n"
  by (induction n arbitrary: p) simp_all

section \<open>Properties of the event-log loops and of the hash encoding\<close>

lemma decompress_loop_map_err:
  "decompress_loop dcmp pis i e c =
     (case map_err dcmp (map (js_get pis) [i..<e]) of
        Inl err \<Rightarrow> Inl err | Inr ps \<Rightarrow> Inr (c @ ps))"
proof (induction dcmp pis i e c rule: decompress_loop.induct)
  case (1 dcmp pis i e c)
  show ?case
  proof (cases "i < e")
    case True
    then have u: "[i..<e] = i # [Suc i..<e]" by (simp add: upt_conv_Cons)
    show ?thesis
      using True "1.IH"
      by (subst decompress_loop.simps) (auto simp: u split: sum.splits)
  next
    case False
    then show ?thesis by (subst decompress_loop.simps) simp
  qed
qed

lemma bruteForce_loop_map_err:
  "bruteForce_loop bf m gs i d =
     (case map_err (\<lambda>j. bf (m ! j) (js_get gs j)) [i..<length m] of
        Inl err \<Rightarrow> Inl err | Inr xs \<Rightarrow> Inr (d @ xs))"
proof (induction bf m gs i d rule: bruteForce_loop.induct)
  case (1 bf m gs i d)
  show ?case
  proof (cases "i < length m")
    case True
    then have u: "[i..<length m] = i # [Suc i..<length m]" by (simp add: upt_conv_Cons)
    show ?thesis
      using True "1.IH"
      by (subst bruteForce_loop.simps) (auto simp: u split: sum.splits)
  next
    case False
    then show ?thesis by (subst bruteForce_loop.simps) simp
  qed
qed

lemma map_err_Inr:
  "map_err f xs = Inr ys \<Longrightarrow> length ys = length xs \<and> (\<forall>j<length xs. f (xs ! j) = Inr (ys ! j))"
proof (induction xs arbitrary: ys)
  case Nil then show ?case by simp
next
  case (Cons x xs)
  then obtain y ys' where a: "f x = Inr y" "map_err f xs = Inr ys'" "ys = y # ys'"
    by (auto split: sum.splits)
  from Cons.IH [OF a(2)] a show ?case by (auto simp: nth_Cons split: nat.splits)
qed

lemma decryptEventLog_closed:
  "ALLOWED type = Some t \<Longrightarrow>
   decryptEventLog ALLOWED env pis type guessers =
     (case map_err (edwardsDecompress env)
             (map (js_get pis) [PUBLIC_INPUTS_START_POSITION t..<PUBLIC_INPUTS_END_POSITION t]) of
        Inl err \<Rightarrow> Inl err
      | Inr c \<Rightarrow>
          (case dec env c of
             Inl err \<Rightarrow> Inl err
           | Inr m \<Rightarrow> map_err (\<lambda>i. bruteForce env (m ! i) (js_get guessers i)) [0..<length m]))"
  by (simp add: decryptEventLog_def js_object_get_def decompress_from_def Let_def
      decompress_loop_map_err bruteForce_loop_map_err split: sum.splits)

lemma decryptEventLog_unknown:
  "ALLOWED type = None \<Longrightarrow> type \<notin> set object_prototype_names \<Longrightarrow>
   decryptEventLog ALLOWED env pis type guessers = Inl UnknownTransactionType"
  by (simp add: decryptEventLog_def js_object_get_def)

lemma decryptEventLog_inherited:
  "ALLOWED type = None \<Longrightarrow> type \<in> set object_prototype_names \<Longrightarrow>
   decryptEventLog ALLOWED env pis type guessers =
     (case dec env [] of
        Inl err \<Rightarrow> Inl err
      | Inr m \<Rightarrow> map_err (\<lambda>i. bruteForce env (m ! i) (js_get guessers i)) [0..<length m])"
  by (simp add: decryptEventLog_def js_object_get_def decompress_from_def Let_def
      bruteForce_loop_map_err split: sum.splits)

lemma pad_toString16:
  assumes "0 \<le> h" "h < 2 ^ 256"
  shows "padStart 64 CHR ''0'' (toString16 h) = fixed_hex 64 (nat h)"
proof -
  have "nat h < 16 ^ Suc 63" using assms by (simp add: nat_less_iff)
  then have "padStart (Suc 63) CHR ''0'' (hex_of_nat (nat h)) = fixed_hex (Suc 63) (nat h)"
    by (rule padStart_hex_of_nat)
  then show ?thesis using assms(1) by (simp add: toString16_def)
qed

lemma to_BigInts_Inr:
  "to_BigInts f items = Inr bs \<Longrightarrow> map (\<lambda>e. js_BigInt (f e)) items = map Some bs"
  by (induction items arbitrary: bs) (auto split: option.splits sum.splits)

text \<open>
  What \<^verbatim>\<open>decryptEventLog\<close> does outside the inherited names: a type that is neither an
  entry of the table nor an inherited name gets the unknown-transaction-type error; for an
  entry the result is that of decompressing the public inputs at the positions from the
  start position (inclusive) to the end position (exclusive), decrypting that sequence of
  points, and searching each decrypted point with the guesser of the same index, the first
  failure being the failure of the call. A successful call returns one plaintext per
  decrypted point, in order, hence one per masked point when decryption drops the leading
  ephemeral point.
\<close>

lemma decryptEventLog_configured:
  "(ALLOWED type = None \<longrightarrow> type \<notin> set object_prototype_names \<longrightarrow>
      decryptEventLog ALLOWED env pis type guessers = Inl UnknownTransactionType)
   \<and> (ALLOWED type = Some t \<longrightarrow>
        decryptEventLog ALLOWED env pis type guessers =
          (case map_err (edwardsDecompress env)
                  (map (js_get pis)
                     [PUBLIC_INPUTS_START_POSITION t..<PUBLIC_INPUTS_END_POSITION t]) of
             Inl err \<Rightarrow> Inl err
           | Inr c \<Rightarrow>
               (case dec env c of
                  Inl err \<Rightarrow> Inl err
                | Inr m \<Rightarrow>
                    map_err (\<lambda>i. bruteForce env (m ! i) (js_get guessers i)) [0..<length m])))
   \<and> (ALLOWED type = Some t \<longrightarrow> decryptEventLog ALLOWED env pis type guessers = Inr r \<longrightarrow>
        (\<exists>c m. length c = PUBLIC_INPUTS_END_POSITION t - PUBLIC_INPUTS_START_POSITION t
           \<and> (\<forall>j < length c.
                 edwardsDecompress env (js_get pis (PUBLIC_INPUTS_START_POSITION t + j)) = Inr (c ! j))
           \<and> dec env c = Inr m
           \<and> length r = length m
           \<and> (\<forall>i < length m. bruteForce env (m ! i) (js_get guessers i) = Inr (r ! i))
           \<and> ((\<forall>c' m'. dec env c' = Inr m' \<longrightarrow> length m' = length c' - 1) \<longrightarrow>
                length r = PUBLIC_INPUTS_END_POSITION t - PUBLIC_INPUTS_START_POSITION t - 1)))"
proof (intro conjI impI)
  assume "ALLOWED type = None" "type \<notin> set object_prototype_names"
  then show "decryptEventLog ALLOWED env pis type guessers = Inl UnknownTransactionType"
    by (rule decryptEventLog_unknown)
next
  assume "ALLOWED type = Some t"
  then show "decryptEventLog ALLOWED env pis type guessers =
          (case map_err (edwardsDecompress env)
                  (map (js_get pis)
                     [PUBLIC_INPUTS_START_POSITION t..<PUBLIC_INPUTS_END_POSITION t]) of
             Inl err \<Rightarrow> Inl err
           | Inr c \<Rightarrow>
               (case dec env c of
                  Inl err \<Rightarrow> Inl err
                | Inr m \<Rightarrow>
                    map_err (\<lambda>i. bruteForce env (m ! i) (js_get guessers i)) [0..<length m]))"
    by (rule decryptEventLog_closed)
next
  let ?s = "PUBLIC_INPUTS_START_POSITION t" and ?e = "PUBLIC_INPUTS_END_POSITION t"
  assume a: "ALLOWED type = Some t" and b: "decryptEventLog ALLOWED env pis type guessers = Inr r"
  from b obtain c m where
    c: "map_err (edwardsDecompress env) (map (js_get pis) [?s..<?e]) = Inr c"
    and m: "dec env c = Inr m"
    and r: "map_err (\<lambda>i. bruteForce env (m ! i) (js_get guessers i)) [0..<length m] = Inr r"
    unfolding decryptEventLog_closed [of ALLOWED type t, OF a] by (auto split: sum.splits)
  from map_err_Inr [OF c] have c1: "length c = ?e - ?s"
    and c2: "\<forall>j < length c. edwardsDecompress env (js_get pis (?s + j)) = Inr (c ! j)"
    by auto
  from map_err_Inr [OF r] have r1: "length r = length m"
    and r2: "\<forall>i < length m. bruteForce env (m ! i) (js_get guessers i) = Inr (r ! i)"
    by auto
  show "\<exists>c m. length c = ?e - ?s
           \<and> (\<forall>j < length c. edwardsDecompress env (js_get pis (?s + j)) = Inr (c ! j))
           \<and> dec env c = Inr m
           \<and> length r = length m
           \<and> (\<forall>i < length m. bruteForce env (m ! i) (js_get guessers i) = Inr (r ! i))
           \<and> ((\<forall>c' m'. dec env c' = Inr m' \<longrightarrow> length m' = length c' - 1) \<longrightarrow>
                length r = ?e - ?s - 1)"
    using c1 c2 m r1 r2 by (intro exI [of _ c] exI [of _ m]) simp
qed

lemma decryptEventLog_configured_example:
  "example_types ''Transfer'' =
      Some \<lparr>PUBLIC_INPUTS_START_POSITION = 6, PUBLIC_INPUTS_END_POSITION = 10\<rparr>
   \<and> example_types ''Mint'' = None
   \<and> decryptEventLog example_types example_elgamal [0, 1, 2, 3, 4, 5, 6, 7, 8, 9, 10, 11]
        ''Mint'' [1, 2, 3] = Inl UnknownTransactionType
   \<and> decryptEventLog example_types example_elgamal [0, 1, 2, 3, 4, 5, 6, 7, 8, 9, 10, 11]
        ''Transfer'' [1, 2, 3] = Inr [106, 106, 106]"
  using decryptEventLog_configured [of example_types "''Transfer''"
             example_elgamal "[0, 1, 2, 3, 4, 5, 6, 7, 8, 9, 10, 11]" "[1, 2, 3]"
             "\<lparr>PUBLIC_INPUTS_START_POSITION = 6, PUBLIC_INPUTS_END_POSITION = 10\<rparr>" "[106, 106, 106]"]
        decryptEventLog_configured [of example_types "''Mint''"
             example_elgamal "[0, 1, 2, 3, 4, 5, 6, 7, 8, 9, 10, 11]" "[1, 2, 3]"]
  by (simp add: example_types_def example_elgamal_def js_get_def upt_rec object_prototype_names_def)

section \<open>Properties of computations with a trace and of the transfer checks\<close>

lemma andThen_Inl: "snd m = Inl e \<Longrightarrow> andThen m f = (fst m, Inl e)"
  by (simp add: andThen_def)

lemma fails_andThen: "(\<And>x. snd m = Inr x \<Longrightarrow> fails (f x)) \<Longrightarrow> fails (andThen m f)"
  by (cases "snd m") (simp_all add: andThen_def fails_def)

lemma fails_andThen_first:
  "fails m \<Longrightarrow> fails (andThen m f) \<and> fst (andThen m f) = fst m"
  by (cases "snd m") (simp_all add: andThen_def fails_def)

lemma fails_throw: "fails (throw e)"
  by (simp add: fails_def throw_def)










lemma andThen_eval:
  "andThen (t, Inl e) f = (t, Inl e)"
  "andThen (t, Inr x) f = (case f x of (t2, r) \<Rightarrow> (t @ t2, r))"
  by (simp_all add: andThen_def case_prod_unfold)

lemma sum_exceeds_limit_js_gt:
  "sum_exceeds_limit cs \<Longrightarrow>
   js_gt (js_add (js_parseInt16 (c_value (fst cs))) (js_parseInt16 (c_value (snd cs)))) 0xffffffffff"
  by (auto simp: sum_exceeds_limit_def js_gt_def js_add_def split: option.splits)

lemmas eval_defs =
  transfer_def transfer_checks_def transfer_prove_def andThen_eval ext_call_def throw_def
  ret_def local_step_def getWeb3ContractInstance_def contractMapping_def
  getPublicKeyTreeData_str_def getPublicKeyTreeData_ok
  js_BigInt_def js_parseInt16_def parse_digits_def is_ws_def is_digit_def digit_val_def
  digits_value_def js_add_def js_gt_def js_slot_def js_get_def
  concatenateThenHash_def example_hash_env_def example_env_def example_commitment_def
  example_options_def FIRST_LEAF_INDEX_def numeral_3_eq_3 Let_def

section \<open>Properties of the prime field and of the codec\<close>

lemma prime_coprime:
  assumes "is_prime p" "0 < m" "m < p"
  shows "coprime m p"
proof -
  let ?g = "gcd m p"
  have g0: "0 < ?g" using assms(2) by (simp add: gcd_pos_int)
  have gm: "?g \<le> m" using assms(2) by (simp add: gcd_le1_int)
  have "?g = 1"
  proof (rule ccontr)
    assume "?g \<noteq> 1"
    moreover have "1 \<le> ?g" using g0 by linarith
    ultimately have "2 \<le> ?g" by linarith
    then have mem: "?g \<in> set [2..p - 1]" using gm assms(3) by simp
    have "\<forall>k \<in> set [2..p - 1]. \<not> k dvd p"
      using assms(1) by (simp add: is_prime_def list_all_iff)
    with mem have "\<not> ?g dvd p" by blast
    then show False by simp
  qed
  then show ?thesis by (simp add: coprime_iff_gcd_eq_1)
qed

lemma prime_not_dvd_coprime:
  assumes "is_prime p" "\<not> p dvd a"
  shows "coprime a p"
proof -
  have p: "0 < p" using assms(1) by (simp add: is_prime_def)
  have "a mod p \<noteq> 0" using assms(2) by (simp add: dvd_eq_mod_eq_0)
  moreover have "0 \<le> a mod p" "a mod p < p" using p by simp_all
  ultimately have "0 < a mod p" "a mod p < p" by linarith+
  then have "coprime (a mod p) p" using assms(1) by (intro prime_coprime)
  then show ?thesis using p by simp
qed

lemma prime_dvd_mult:
  assumes "is_prime p" "p dvd a * b"
  shows "p dvd a \<or> p dvd b"
proof (cases "p dvd a")
  case True then show ?thesis by simp
next
  case False
  then have "coprime p a" using prime_not_dvd_coprime [OF assms(1)] by (simp add: coprime_commute)
  then have "p dvd b" using assms(2) by (simp add: coprime_dvd_mult_right_iff)
  then show ?thesis by simp
qed

lemma prime_inverse:
  assumes "is_prime p" "\<not> p dvd den"
  shows "\<exists>v \<in> set [0..p - 1]. den * v mod p = 1 mod p"
proof -
  have p: "0 < p" using assms(1) by (simp add: is_prime_def)
  have "coprime den p" using assms by (rule prime_not_dvd_coprime)
  then obtain u v where uv: "u * den + v * p = 1"
    using bezout_int [of den p] by auto
  have "den * (u mod p) mod p = (den * u) mod p" by (simp add: mod_mult_right_eq)
  also have "den * u = 1 - v * p" using uv by (simp add: algebra_simps)
  also have "(1 - v * p) mod p = 1 mod p" by (simp add: mod_diff_right_eq [symmetric])
  finally have "den * (u mod p) mod p = 1 mod p" .
  moreover have "u mod p \<in> set [0..p - 1]" using p by simp
  ultimately show ?thesis by blast
qed

lemma spec_modDivide_correct:
  assumes "is_prime p" "\<not> p dvd den" "(X * den) mod p = num mod p"
  shows "spec_modDivide num den p = Some (X mod p)"
proof -
  obtain v where f: "List.find (\<lambda>v. den * v mod p = 1 mod p) [0..p - 1] = Some v"
    using prime_inverse [OF assms(1,2)] by (cases "List.find (\<lambda>v. den * v mod p = 1 mod p) [0..p - 1]")
      (auto simp: find_None_iff)
  then have v: "den * v mod p = 1 mod p" by (auto simp: find_Some_iff)
  have "num * v mod p = (X * den) * v mod p"
    using assms(3) by (metis mod_mult_left_eq)
  also have "\<dots> = X * (den * v) mod p" by (simp add: mult.assoc)
  also have "\<dots> = X * 1 mod p" using v by (metis mod_mult_right_eq)
  finally show ?thesis using f by (simp add: spec_modDivide_def)
qed

lemma spec_sqrtModPrime_square:
  assumes "is_prime p" "0 \<le> x" "x < p"
  shows "\<exists>r. spec_sqrtModPrime (x * x mod p) p = Inr r \<and> 0 \<le> r \<and> r < p \<and> (r = x \<or> r = p - x)"
proof -
  have p0: "0 < p" using assms(2,3) by simp
  have "x \<in> set [0..p - 1] \<and> x * x mod p = (x * x mod p) mod p" using assms by simp
  then obtain r where f: "List.find (\<lambda>r. r * r mod p = (x * x mod p) mod p) [0..p - 1] = Some r"
    by (cases "List.find (\<lambda>r. r * r mod p = (x * x mod p) mod p) [0..p - 1]")
       (auto simp: find_None_iff)
  then have rr: "r * r mod p = x * x mod p" and "r \<in> set [0..p - 1]"
    by (auto simp: find_Some_iff)
  then have r: "0 \<le> r" "r < p" by simp_all
  have "p dvd r * r - x * x" using rr by (simp add: mod_eq_dvd_iff)
  moreover have "r * r - x * x = (r - x) * (r + x)" by (simp add: algebra_simps)
  ultimately have "p dvd r - x \<or> p dvd r + x" using prime_dvd_mult [OF assms(1)] by simp
  then have "r = x \<or> r = p - x"
  proof
    assume "p dvd r - x"
    then obtain k where k: "r - x = p * k" ..
    have "p * k < p" using r assms(2) k by linarith
    then have "p * k < p * 1" by (simp only: mult.right_neutral)
    then have k1: "k < 1" by (rule mult_less_cancel_left_pos [OF p0, THEN iffD1])
    have "- p < p * k" using r assms(3) k by linarith
    then have "p * (- 1) < p * k" by (simp only: mult_minus_right mult.right_neutral)
    then have "- 1 < k" by (rule mult_less_cancel_left_pos [OF p0, THEN iffD1])
    with k1 have "k = 0" by linarith
    then show ?thesis using k by simp
  next
    assume "p dvd r + x"
    then obtain k where k: "r + x = p * k" ..
    have "p * k < p + p" using r assms(3) k by linarith
    then have "p * k < p * 2" by (simp only: mult_2_right)
    then have k2: "k < 2" by (rule mult_less_cancel_left_pos [OF p0, THEN iffD1])
    have "- p < p * k" using r assms(2) k p0 by linarith
    then have "p * (- 1) < p * k" by (simp only: mult_minus_right mult.right_neutral)
    then have "- 1 < k" by (rule mult_less_cancel_left_pos [OF p0, THEN iffD1])
    with k2 have "k = 0 \<or> k = 1" by linarith
    then show ?thesis
    proof
      assume "k = 0"
      then have "r + x = 0" using k by simp
      then have "r = x" using r assms(2) by linarith
      then show ?thesis by simp
    next
      assume "k = 1"
      then have "r + x = p" using k by simp
      then have "r = p - x" by linarith
      then show ?thesis by simp
    qed
  qed
  then show ?thesis using f r by (auto simp: spec_sqrtModPrime_def)
qed

lemma mod2_eq_iff_even: "(r mod 2 = x mod 2) = (even r = even (x::int))"
  by (cases "even r"; cases "even x") (simp_all add: even_iff_mod_2_eq_zero odd_iff_mod_2_eq_one)

lemma select_root:
  assumes "odd p" "r = x \<or> r = p - x"
  shows "(if r mod 2 = x mod 2 then r else p - r) = (x::int)"
  using assms(2)
proof
  assume "r = x"
  then show ?thesis by simp
next
  assume r: "r = p - x"
  have "even (p - x) \<noteq> even x" using assms(1) by simp
  then have "r mod 2 \<noteq> x mod 2" unfolding r mod2_eq_iff_even by simp
  then show ?thesis using r by simp
qed

lemma unpack:
  assumes "0 \<le> y" "y < 2 ^ w" "b = 0 \<or> b = 1"
  shows "(y + b * 2 ^ w) mod 2 ^ w = y \<and> ((y + b * 2 ^ w) div 2 ^ w) mod 2 = (b::int)"
  using assms by auto

lemma curve_rearranged:
  assumes "is_prime p" "(a - d) mod p \<noteq> 0"
    and eq: "(a * (x * x) + y * y) mod p = (1 + d * (x * x) * (y * y)) mod p"
  shows "\<not> p dvd d * (y * y) - a \<and> ((x * x) * (d * (y * y) - a)) mod p = (y * y - 1) mod p"
proof -
  have e: "p dvd (a * (x * x) + y * y) - (1 + d * (x * x) * (y * y))"
    using eq by (simp add: mod_eq_dvd_iff)
  have id: "(x * x) * (d * (y * y) - a) - (y * y - 1) = - ((a * (x * x) + y * y) - (1 + d * (x * x) * (y * y)))"
    by (simp add: algebra_simps)
  have "p dvd - ((a * (x * x) + y * y) - (1 + d * (x * x) * (y * y)))"
    using e by (simp only: dvd_minus_iff)
  then have r: "p dvd (x * x) * (d * (y * y) - a) - (y * y - 1)" by (simp only: id)
  have "\<not> p dvd d * (y * y) - a"
  proof
    assume z: "p dvd d * (y * y) - a"
    then have m: "p dvd (x * x) * (d * (y * y) - a)" by (rule dvd_mult)
    have d1: "p dvd (x * x) * (d * (y * y) - a) - ((x * x) * (d * (y * y) - a) - (y * y - 1))"
      using m r by (rule dvd_diff)
    have id1: "(x * x) * (d * (y * y) - a) - ((x * x) * (d * (y * y) - a) - (y * y - 1)) = y * y - 1"
      by simp
    have "p dvd y * y - 1" using d1 by (simp only: id1)
    then have "p dvd d * (y * y - 1)" by (rule dvd_mult)
    with z have "p dvd (d * (y * y) - a) - d * (y * y - 1)" by (rule dvd_diff)
    moreover have id2: "(d * (y * y) - a) - d * (y * y - 1) = - (a - d)" by (simp add: algebra_simps)
    ultimately have "p dvd - (a - d)" by (simp only: id2)
    then have "p dvd a - d" by (simp only: dvd_minus_iff)
    then show False using assms(2) by (simp add: dvd_eq_mod_eq_0)
  qed
  then show ?thesis using r by (simp add: mod_eq_dvd_iff)
qed

section \<open>The claims about the whitelist sibling path\<close>

text \<open>
  Claim C1, as the specification states it, fails: in the height-3 tree with the key at
  node 9 the returned path is not \<open>[root, M(10), M(3), M(1)]\<close>.
\<close>

theorem C1_example_path_refuted:
  "snd (getPublicKeyTreeData 3 ZOKRATES_PRIME example_L example_M 5) \<noteq>
     Inr \<lparr>leafIndex = 2,
          siblingPath = [Some (example_M 0), Some (example_M 10), Some (example_M 3), Some (example_M 1)]\<rparr>"
  by (simp add: getPublicKeyTreeData_ok example_L_def example_M_def FIRST_LEAF_INDEX_def
      numeral_3_eq_3 parent_of_def sibling_of_def)

text \<open>
  Claim C1, amended: with tree height 3 (first leaf index 7) and a key whose lookup
  returns node 9, \<^verbatim>\<open>getPublicKeyTreeData\<close> returns leaf index 2 and the 4-entry path
  \<open>[M(0), M(2), M(3), M(10)]\<close>: the root first, then the siblings from the level below the
  root down to the sibling of the leaf.
\<close>

theorem C1_example_path:
  assumes "L (canonical_key zp k) = 9"
  shows "FIRST_LEAF_INDEX 3 = 7 \<and>
         snd (getPublicKeyTreeData 3 zp L M k) =
           Inr \<lparr>leafIndex = 2,
                siblingPath = [Some (M 0), Some (M 2), Some (M 3), Some (M 10)]\<rparr>"
proof -
  have f: "FIRST_LEAF_INDEX 3 = 7" by (simp add: FIRST_LEAF_INDEX_def)
  have ok: "FIRST_LEAF_INDEX 3 \<le> int (L (canonical_key zp k))" using assms by (simp add: f)
  have w: "up_walk 3 9 = [9, 4, 1]" by (simp add: numeral_3_eq_3 parent_of_def)
  show ?thesis
    using ok by (simp add: getPublicKeyTreeData_ok assms f w sibling_of_def)
qed

text \<open>
  Claim C1, amended, at the concrete snapshot.
\<close>

theorem C1_example_path_witness:
  "example_L (canonical_key ZOKRATES_PRIME 5) = 9 \<and>
   snd (getPublicKeyTreeData 3 ZOKRATES_PRIME example_L example_M 5) =
     Inr \<lparr>leafIndex = 2, siblingPath = [Some 100, Some 102, Some 103, Some 110]\<rparr>"
  using C1_example_path [of example_L ZOKRATES_PRIME 5 example_M]
  by (simp add: example_L_def example_M_def)

text \<open>
  Claim C2: for every key whose lookup is at or past the first leaf index, the path
  has \<open>H + 1\<close> entries; entry 0 is the root value \<open>M(0)\<close>; the following \<open>H\<close> entries are the
  values of the siblings of the nodes \<open>ns\<close> on the downward walk to the looked-up node, in
  downward order. That walk is a chain of children ending in the looked-up node, it starts
  below the root whenever the node is a leaf of the tree (at most \<open>2 ^ (H + 1) - 2\<close>), every
  entry is read at the sibling of a node of the walk, and the position of the queried leaf
  is never read.
\<close>

theorem C2_path_root_downward:
  assumes "FIRST_LEAF_INDEX H \<le> int (L (canonical_key zp k))"
  shows "let p = int (L (canonical_key zp k)); ns = root_to_leaf H p in
           snd (getPublicKeyTreeData H zp L M k) =
             Inr \<lparr>leafIndex = p - FIRST_LEAF_INDEX H,
                  siblingPath = Some (M 0) # map (\<lambda>n. Some (M (sibling_of n))) ns\<rparr>
           \<and> length (Some (M 0) # map (\<lambda>n. Some (M (sibling_of n))) ns) = H + 1
           \<and> is_chain_down (anc H p) ns
           \<and> (p \<le> 2 ^ (H + 1) - 2 \<longrightarrow> anc H p = 0)
           \<and> (0 < H \<longrightarrow> last ns = p)
           \<and> list_all (\<lambda>n. is_sibling (sibling_of n) n) ns
           \<and> (0 < H \<longrightarrow> p \<notin> set (0 # map sibling_of ns))"
proof -
  define p where "p = int (L (canonical_key zp k))"
  define ns where "ns = root_to_leaf H p"
  have low: "2 ^ H - 1 \<le> p" using assms by (simp add: p_def FIRST_LEAF_INDEX_def)
  have c1: "snd (getPublicKeyTreeData H zp L M k) =
             Inr \<lparr>leafIndex = p - FIRST_LEAF_INDEX H,
                  siblingPath = Some (M 0) # map (\<lambda>n. Some (M (sibling_of n))) ns\<rparr>"
    using assms by (simp add: getPublicKeyTreeData_ok p_def ns_def root_to_leaf_def rev_map)
  have c2: "length (Some (M 0) # map (\<lambda>n. Some (M (sibling_of n))) ns) = H + 1"
    by (simp add: ns_def root_to_leaf_def length_up_walk)
  have c3: "is_chain_down (anc H p) ns"
    unfolding ns_def using low by (rule chain_root_to_leaf)
  have c4: "p \<le> 2 ^ (H + 1) - 2 \<longrightarrow> anc H p = 0"
    using anc_root [OF low] by simp
  have c5: "0 < H \<longrightarrow> last ns = p"
    by (simp add: ns_def last_root_to_leaf)
  have c6: "list_all (\<lambda>n. is_sibling (sibling_of n) n) ns"
    unfolding list_all_iff ns_def root_to_leaf_def
    using up_walk_ge1 [OF low] is_sibling_sibling_of by auto
  have c7: "0 < H \<longrightarrow> p \<notin> set (0 # map sibling_of ns)"
    unfolding ns_def using leaf_not_read [OF _ low] by blast
  show ?thesis
    unfolding Let_def p_def [symmetric] ns_def [symmetric]
    using c1 c2 c3 c4 c5 c6 c7 by blast
qed

text \<open>
  Claim C2 at the concrete snapshot.
\<close>

theorem C2_path_root_downward_witness:
  "FIRST_LEAF_INDEX 3 \<le> int (example_L (canonical_key ZOKRATES_PRIME 5)) \<and>
   int (example_L (canonical_key ZOKRATES_PRIME 5)) \<le> 2 ^ (3 + 1) - 2 \<and>
   root_to_leaf 3 9 = [1, 4, 9] \<and>
   snd (getPublicKeyTreeData 3 ZOKRATES_PRIME example_L example_M 5) =
     Inr \<lparr>leafIndex = 2, siblingPath = [Some 100, Some 102, Some 103, Some 110]\<rparr> \<and>
   anc 3 9 = 0 \<and> (9::int) \<notin> set (0 # map sibling_of (root_to_leaf 3 9))"
  using C2_path_root_downward [of 3 example_L ZOKRATES_PRIME 5 example_M]
  by (simp add: example_L_def example_M_def FIRST_LEAF_INDEX_def Let_def root_to_leaf_def
      numeral_3_eq_3 parent_of_def sibling_of_def)

text \<open>
  Claim C3: \<^verbatim>\<open>getPublicKeyTreeData\<close> fails with the not-whitelisted error exactly when
  the looked-up node index minus \<open>2 ^ H - 1\<close> is negative; for every key at or past the first
  leaf index it returns the leaf index \<open>L(key) - firstLeafIndex\<close> together with a sibling path.
\<close>

theorem C3_not_whitelisted_iff:
  "(snd (getPublicKeyTreeData H zp L M k) = Inl KeyNotWhitelisted) =
     (int (L (canonical_key zp k)) - FIRST_LEAF_INDEX H < 0)
   \<and> FIRST_LEAF_INDEX H = 2 ^ H - 1
   \<and> (FIRST_LEAF_INDEX H \<le> int (L (canonical_key zp k)) \<longrightarrow>
        (\<exists>sp. snd (getPublicKeyTreeData H zp L M k) =
           Inr \<lparr>leafIndex = int (L (canonical_key zp k)) - FIRST_LEAF_INDEX H, siblingPath = sp\<rparr>))"
proof (cases "FIRST_LEAF_INDEX H \<le> int (L (canonical_key zp k))")
  case True
  then show ?thesis by (simp add: getPublicKeyTreeData_ok FIRST_LEAF_INDEX_def)
next
  case False
  then have "int (L (canonical_key zp k)) < FIRST_LEAF_INDEX H" by simp
  then show ?thesis by (simp add: getPublicKeyTreeData_throw FIRST_LEAF_INDEX_def)
qed

text \<open>
  Claim C3 at the concrete snapshot.
\<close>

theorem C3_not_whitelisted_iff_witness:
  "FIRST_LEAF_INDEX 3 \<le> int (example_L (canonical_key ZOKRATES_PRIME 5)) \<and>
   (\<exists>sp. snd (getPublicKeyTreeData 3 ZOKRATES_PRIME example_L example_M 5) =
      Inr \<lparr>leafIndex = 2, siblingPath = sp\<rparr>)"
  using C3_not_whitelisted_iff [of 3 ZOKRATES_PRIME example_L example_M 5]
  by (simp add: example_L_def FIRST_LEAF_INDEX_def)

text \<open>
  Claim C4: when the walk takes place, the reads issued after the lookup are the
  sibling reads of the levels of the walk the specification describes (sibling \<open>p - 1\<close> and
  next index \<open>floor((p - 1) / 2)\<close> for even \<open>p\<close>, sibling \<open>p + 1\<close> and next index
  \<open>floor(p / 2)\<close> for odd \<open>p\<close>), starting from the looked-up node index; there are exactly
  \<open>H\<close> of them, followed by the read of the root.
\<close>

theorem C4_level_rule:
  assumes "FIRST_LEAF_INDEX H \<le> int (L (canonical_key zp k))"
  shows "fst (getPublicKeyTreeData H zp L M k) =
           CallL (canonical_key zp k)
             # map (\<lambda>(p, s, t). CallM s) (spec_level_walk H (int (L (canonical_key zp k))))
             @ [CallM 0]
         \<and> length (spec_level_walk H (int (L (canonical_key zp k)))) = H"
proof -
  have "map (\<lambda>(p, s, t). CallM s) (spec_level_walk H q) = map (\<lambda>n. CallM (sibling_of n)) (up_walk H q)" for q
    using arg_cong [OF spec_level_walk_siblings [of H q], of "map CallM"]
    by (simp add: case_prod_unfold comp_def)
  then show ?thesis
    using assms by (simp add: getPublicKeyTreeData_ok length_spec_level_walk)
qed

text \<open>
  Claim C4 at the concrete snapshot.
\<close>

theorem C4_level_rule_witness:
  "FIRST_LEAF_INDEX 3 \<le> int (example_L (canonical_key ZOKRATES_PRIME 5)) \<and>
   filter is_CallM (fst (getPublicKeyTreeData 3 ZOKRATES_PRIME example_L example_M 5)) =
     [CallM 10, CallM 3, CallM 2, CallM 0]"
  using C4_level_rule [of 3 example_L ZOKRATES_PRIME 5 example_M]
  by (simp add: example_L_def FIRST_LEAF_INDEX_def numeral_3_eq_3)

text \<open>
  Claim C6: for every non-negative key value, also one wider than the field, the one
  lookup \<open>L\<close> that \<^verbatim>\<open>getPublicKeyTreeData\<close> issues is on the key reduced modulo the field
  modulus and written as \<^verbatim>\<open>0x\<close> followed by exactly 64 hexadecimal digits; two keys
  congruent modulo the field modulus give the same lookup and the same result.
\<close>

theorem C6_canonical_lookup:
  assumes "0 \<le> k" "0 \<le> k'" "0 < zp" "zp \<le> 2 ^ 256"
  shows "filter is_CallL (fst (getPublicKeyTreeData H zp L M k)) =
           [CallL (''0x'' @ fixed_hex 64 (nat (k mod zp)))]
         \<and> length (''0x'' @ fixed_hex 64 (nat (k mod zp))) = 66
         \<and> set (fixed_hex 64 (nat (k mod zp))) \<subseteq> set ''0123456789abcdef''
         \<and> (k mod zp = k' mod zp \<longrightarrow>
              getPublicKeyTreeData H zp L M k = getPublicKeyTreeData H zp L M k')"
proof -
  have ck: "canonical_key zp k = ''0x'' @ fixed_hex 64 (nat (k mod zp))"
    using assms(1,3,4) by (rule canonical_key_fixed)
  have ck': "canonical_key zp k' = ''0x'' @ fixed_hex 64 (nat (k' mod zp))"
    using assms(2,3,4) by (rule canonical_key_fixed)
  have tr: "filter is_CallL (fst (getPublicKeyTreeData H zp L M k)) = [CallL (canonical_key zp k)]"
  proof (cases "FIRST_LEAF_INDEX H \<le> int (L (canonical_key zp k))")
    case True
    have "filter is_CallL (map (\<lambda>n. CallM (sibling_of n)) xs) = []" for xs
      by (induction xs) simp_all
    then show ?thesis using True by (simp add: getPublicKeyTreeData_ok)
  next
    case False
    then have "int (L (canonical_key zp k)) < FIRST_LEAF_INDEX H" by simp
    then show ?thesis by (simp add: getPublicKeyTreeData_throw)
  qed
  have eq: "k mod zp = k' mod zp \<longrightarrow>
              getPublicKeyTreeData H zp L M k = getPublicKeyTreeData H zp L M k'"
    by (simp add: getPublicKeyTreeData_def ck ck')
  have len: "length (''0x'' @ fixed_hex 64 (nat (k mod zp))) = 66"
    by (simp add: length_fixed_hex)
  show ?thesis using tr eq len fixed_hex_chars [of 64 "nat (k mod zp)"] unfolding ck by blast
qed

text \<open>
  Claim C6 at a key wider than the field.
\<close>

theorem C6_canonical_lookup_witness:
  "(0::int) \<le> ZOKRATES_PRIME + 5 \<and> ZOKRATES_PRIME \<le> 2 ^ 256 \<and>
   (ZOKRATES_PRIME + 5) mod ZOKRATES_PRIME = 5 mod ZOKRATES_PRIME \<and>
   getPublicKeyTreeData 3 ZOKRATES_PRIME example_L example_M (ZOKRATES_PRIME + 5) =
   getPublicKeyTreeData 3 ZOKRATES_PRIME example_L example_M 5"
  using C6_canonical_lookup [of "ZOKRATES_PRIME + 5" 5 ZOKRATES_PRIME 3 example_L example_M]
  by (simp add: ZOKRATES_PRIME_def)

section \<open>The claims about event-log decryption and hash selection\<close>

text \<open>
  Claim C7: \<^verbatim>\<open>decryptEventLog\<close> is to throw the unknown-transaction-type error for every
  type that the configured table does not hold. It does not at the type \<^verbatim>\<open>constructor\<close>,
  which the concrete table does not hold: the property read finds the inherited property,
  the guard passes, both positions are \<^verbatim>\<open>undefined\<close>, no public input is decompressed and
  the empty sequence of points goes to decryption, whose failure is the failure of the
  call.
\<close>

theorem C7_inherited_type_passes_guard:
  "example_types ''constructor'' = None
   \<and> decryptEventLog example_types example_elgamal [0, 1, 2, 3, 4, 5, 6, 7, 8, 9, 10, 11]
         ''constructor'' [1, 2, 3] = Inl (External ''empty ciphertext'')
   \<and> decryptEventLog example_types example_elgamal [0, 1, 2, 3, 4, 5, 6, 7, 8, 9, 10, 11]
         ''constructor'' [1, 2, 3] \<noteq> Inl UnknownTransactionType"
proof -
  have none: "example_types ''constructor'' = None"
    by (simp add: example_types_def)
  have inh: "''constructor'' \<in> set object_prototype_names"
    by (simp add: object_prototype_names_def)
  have "decryptEventLog example_types example_elgamal [0, 1, 2, 3, 4, 5, 6, 7, 8, 9, 10, 11]
          ''constructor'' [1, 2, 3] = Inl (External ''empty ciphertext'')"
    by (simp add: decryptEventLog_inherited [of example_types "''constructor''", OF none inh]
        example_elgamal_def)
  then show ?thesis using none by simp
qed

text \<open>
  Claim C8: when the hash type is \<^verbatim>\<open>mimc\<close> in the configuration or in the environment,
  \<^verbatim>\<open>concatenateThenHash\<close> returns the MiMC hash of its arguments coerced to BigInt, written
  as \<^verbatim>\<open>0x\<close> and 64 hexadecimal digits (the hash being a value below \<open>2 ^ 256\<close>); in every
  other configuration it returns the SHA hash of its arguments. The branch taken is a
  function of the two configuration values alone.
\<close>

theorem C8_hash_selection:
  "(config_HASH_TYPE env = Some ''mimc'' \<or> env_HASH_TYPE env = Some ''mimc'' \<longrightarrow>
      to_BigInts (ensure0x env) items = Inr bs \<longrightarrow>
      0 \<le> mimcHash env bs ''ALT_BN_254'' \<longrightarrow> mimcHash env bs ''ALT_BN_254'' < 2 ^ 256 \<longrightarrow>
        concatenateThenHash env items =
          Inr (''0x'' @ fixed_hex 64 (nat (mimcHash env bs ''ALT_BN_254'')))
        \<and> map (\<lambda>e. js_BigInt (ensure0x env e)) items = map Some bs
        \<and> length (''0x'' @ fixed_hex 64 (nat (mimcHash env bs ''ALT_BN_254''))) = 66)
   \<and> (\<not> (config_HASH_TYPE env = Some ''mimc'' \<or> env_HASH_TYPE env = Some ''mimc'') \<longrightarrow>
        concatenateThenHash env items = Inr (shaHash env items))"
proof (intro conjI impI)
  assume mimc: "config_HASH_TYPE env = Some ''mimc'' \<or> env_HASH_TYPE env = Some ''mimc''"
    and bs: "to_BigInts (ensure0x env) items = Inr bs"
    and lo: "0 \<le> mimcHash env bs ''ALT_BN_254''"
    and hi: "mimcHash env bs ''ALT_BN_254'' < 2 ^ 256"
  have "padStart 64 CHR ''0'' (toString16 (mimcHash env bs ''ALT_BN_254'')) =
          fixed_hex 64 (nat (mimcHash env bs ''ALT_BN_254''))"
    using lo hi by (rule pad_toString16)
  then show "concatenateThenHash env items =
          Inr (''0x'' @ fixed_hex 64 (nat (mimcHash env bs ''ALT_BN_254'')))"
    using mimc bs by (auto simp: concatenateThenHash_def)
  show "map (\<lambda>e. js_BigInt (ensure0x env e)) items = map Some bs"
    using bs by (rule to_BigInts_Inr)
  show "length (''0x'' @ fixed_hex 64 (nat (mimcHash env bs ''ALT_BN_254''))) = 66"
    by (simp add: length_fixed_hex)
next
  assume "\<not> (config_HASH_TYPE env = Some ''mimc'' \<or> env_HASH_TYPE env = Some ''mimc'')"
  then show "concatenateThenHash env items = Inr (shaHash env items)"
    by (simp add: concatenateThenHash_def)
qed

text \<open>
  Claim C8 at the concrete configurations.
\<close>

theorem C8_hash_selection_witness:
  "concatenateThenHash (example_hash_env None (Some ''mimc'')) [''0x10'', ''ff''] =
     Inr (''0x'' @ fixed_hex 64 271)
   \<and> concatenateThenHash (example_hash_env (Some ''mimc'') None) [''0x10'', ''ff''] =
     Inr (''0x'' @ fixed_hex 64 271)
   \<and> concatenateThenHash (example_hash_env (Some ''sha'') None) [''0x10'', ''ff''] =
     Inr ''0x10ff''"
  using C8_hash_selection [of "example_hash_env None (Some ''mimc'')" "[''0x10'', ''ff'']" "[16, 255]"]
        C8_hash_selection [of "example_hash_env (Some ''mimc'') None" "[''0x10'', ''ff'']" "[16, 255]"]
        C8_hash_selection [of "example_hash_env (Some ''sha'') None" "[''0x10'', ''ff'']" "[16, 255]"]
  by (simp add: example_hash_env_def example_ensure0x_def example_mimc_def
      js_BigInt_def parse_digits_def is_ws_def is_digit_def digit_val_def digits_value_def)

section \<open>The claims about the compliance transfer\<close>



text \<open>
  Claim C10: when the values of the two input commitments or of the two output
  commitments sum to more than \<^verbatim>\<open>0xffffffffff\<close>, the transfer ends in an error and the only
  event before it is the construction of the contract object from the local artefact; the
  error is the input-too-large error as soon as that construction succeeds.
\<close>

theorem C10_value_limit:
  assumes "sum_exceeds_limit inputCommitments \<or> sum_exceeds_limit outputCommitments"
  shows "fails (transfer env inputCommitments outputCommitments receiverPublicKey
                  senderSecretKey blockchainOptions)
         \<and> fst (transfer env inputCommitments outputCommitments receiverPublicKey
                  senderSecretKey blockchainOptions) =
             [GetContractInstance ''FTokenShield'' (fTokenShieldAddress blockchainOptions)]
         \<and> (readContractJson env (cwd env @ ''/build/contracts/FTokenShield.json'') = Inr abi \<longrightarrow>
              snd (transfer env inputCommitments outputCommitments receiverPublicKey
                     senderSecretKey blockchainOptions) = Inl InputTooLarge)"
proof -
  let ?c = "transfer_checks env inputCommitments outputCommitments receiverPublicKey
              senderSecretKey blockchainOptions"
  have big: "js_gt (js_add (js_parseInt16 (c_value (fst inputCommitments)))
                           (js_parseInt16 (c_value (snd inputCommitments)))) 0xffffffffff
             \<or> js_gt (js_add (js_parseInt16 (c_value (fst outputCommitments)))
                              (js_parseInt16 (c_value (snd outputCommitments)))) 0xffffffffff"
    using assms sum_exceeds_limit_js_gt by blast
  have c: "?c = andThen (ext_call (GetContractInstance ''FTokenShield'' (fTokenShieldAddress blockchainOptions))
                (getWeb3ContractInstance (readContractJson env) (cwd env) ''FTokenShield''
                   (fTokenShieldAddress blockchainOptions)))
              (\<lambda>inst. throw InputTooLarge)"
    unfolding transfer_checks_def Let_def using big by simp
  have f: "fails ?c"
    unfolding c by (intro fails_andThen fails_throw)
  have t: "fst ?c = [GetContractInstance ''FTokenShield'' (fTokenShieldAddress blockchainOptions)]"
    unfolding c by (simp add: andThen_def ext_call_def throw_def split: sum.splits)
  have e: "readContractJson env (cwd env @ ''/build/contracts/FTokenShield.json'') = Inr abi \<longrightarrow>
             snd ?c = Inl InputTooLarge"
    unfolding c
    by (simp add: andThen_def ext_call_def throw_def getWeb3ContractInstance_def contractMapping_def)
  have s: "snd ?c = Inl InputTooLarge \<Longrightarrow>
             snd (andThen ?c (transfer_prove env outputCommitments)) = Inl InputTooLarge"
    by (simp add: andThen_def)
  show ?thesis
    unfolding transfer_def
    using fails_andThen_first [OF f, of "transfer_prove env outputCommitments"] t e s
    by simp
qed

text \<open>
  Claim C10 at the concrete transfer.
\<close>

theorem C10_value_limit_witness:
  "sum_exceeds_limit (example_commitment ''0xffffffffff'', example_commitment ''0x01'')
   \<and> transfer (example_env False False)
        (example_commitment ''0xffffffffff'', example_commitment ''0x01'')
        (example_commitment ''0x02'', example_commitment ''0x03'') ''0x06'' ''0x05''
        example_options
      = ([GetContractInstance ''FTokenShield'' ''0x04''], Inl InputTooLarge)"
  using C10_value_limit [of "(example_commitment ''0xffffffffff'', example_commitment ''0x01'')"
               "(example_commitment ''0x02'', example_commitment ''0x03'')"
               "example_env False False" "''0x06''" "''0x05''" example_options "()"]
  by (simp add: sum_exceeds_limit_def eval_defs)

section \<open>The claim about the point codec\<close>

text \<open>
  Claim C5: for every valid curve point \<open>P\<close>, compression succeeds and decompressing the
  result gives \<open>P\<close> back. The field modulus is an odd prime that fits the low bits of the
  encoding, and the curve is a twisted Edwards curve, \<open>a\<close> and \<open>d\<close> being different field
  elements.
\<close>

theorem C5_codec_round_trip:
  assumes "is_prime (cp_p C)" "odd (cp_p C)" "cp_p C \<le> 2 ^ cp_w C"
    and "(cp_a C - cp_d C) mod cp_p C \<noteq> 0"
    and "on_curve C P"
  shows "\<exists>v. spec_edwardsCompress C P = Inr v \<and> spec_edwardsDecompress C v = Inr P"
proof -
  obtain x y where P: "P = (x, y)" by (cases P)
  let ?p = "cp_p C"
  have xy: "0 \<le> x" "x < ?p" "0 \<le> y" "y < ?p"
    and eq: "(cp_a C * (x * x) + y * y) mod ?p = (1 + cp_d C * (x * x) * (y * y)) mod ?p"
    using assms(5) by (simp_all add: on_curve_def P)
  define v where "v = y + (x mod 2) * 2 ^ cp_w C"
  have c: "spec_edwardsCompress C P = Inr v"
    using assms(5) by (simp add: spec_edwardsCompress_def P v_def)
  have "y < 2 ^ cp_w C" using xy(4) assms(3) by simp
  then have u: "v mod 2 ^ cp_w C = y" "(v div 2 ^ cp_w C) mod 2 = x mod 2"
    unfolding v_def using unpack [of y "cp_w C" "x mod 2"] xy(3) by auto
  from curve_rearranged [OF assms(1) assms(4) eq]
  have nz: "\<not> ?p dvd cp_d C * (y * y) - cp_a C"
    and re: "((x * x) * (cp_d C * (y * y) - cp_a C)) mod ?p = (y * y - 1) mod ?p"
    by simp_all
  have md: "spec_modDivide (y * y - 1) (cp_d C * (y * y) - cp_a C) ?p = Some (x * x mod ?p)"
    using assms(1) nz re by (rule spec_modDivide_correct)
  obtain r where sq: "spec_sqrtModPrime (x * x mod ?p) ?p = Inr r"
    and r: "r = x \<or> r = ?p - x"
    using spec_sqrtModPrime_square [OF assms(1) xy(1,2)] by blast
  have sel: "(if r mod 2 = x mod 2 then r else ?p - r) = x"
    using assms(2) r by (rule select_root)
  have "spec_edwardsDecompress C v = Inr (x, y)"
    by (simp add: spec_edwardsDecompress_def Let_def u md sq sel)
  then show ?thesis using c P by simp
qed

text \<open>
  Claim C5 at a point of the concrete curve.
\<close>

theorem C5_codec_round_trip_witness:
  "is_prime (cp_p example_curve) \<and> odd (cp_p example_curve)
   \<and> cp_p example_curve \<le> 2 ^ cp_w example_curve
   \<and> (cp_a example_curve - cp_d example_curve) mod cp_p example_curve \<noteq> 0
   \<and> on_curve example_curve (11, 2)
   \<and> spec_edwardsCompress example_curve (11, 2) = Inr 18
   \<and> spec_edwardsDecompress example_curve 18 = Inr (11, 2)"
proof -
  have h1: "is_prime (cp_p example_curve)"
    by (simp add: example_curve_def is_prime_def upto.simps)
  have h2: "odd (cp_p example_curve)" by (simp add: example_curve_def)
  have h3: "cp_p example_curve \<le> 2 ^ cp_w example_curve" by (simp add: example_curve_def)
  have h4: "(cp_a example_curve - cp_d example_curve) mod cp_p example_curve \<noteq> 0"
    by (simp add: example_curve_def)
  have h5: "on_curve example_curve (11, 2)" by (simp add: example_curve_def on_curve_def)
  from C5_codec_round_trip [OF h1 h2 h3 h4 h5] obtain v
    where v: "spec_edwardsCompress example_curve (11, 2) = Inr v"
      "spec_edwardsDecompress example_curve v = Inr (11, 2)"
    by blast
  have "spec_edwardsCompress example_curve (11, 2) = Inr 18"
    using h5 by (simp add: spec_edwardsCompress_def example_curve_def)
  with v have "v = 18" by simp
  with v h1 h2 h3 h4 h5 show ?thesis by simp
qed

end
